theory Spec2Isabelle
  imports Complex_Main "HOL-Library.Char_ord" "HOL-Library.List_Lexorder" "HOL-Library.Sublist"
    "HOL-Library.Monad_Syntax" "HOL-Library.AList"
begin

section \<open>JavaScript values used by convert.mjs\<close>

text \<open>
  Strings are lists of 8-bit characters, read as the code units U+0000 to U+00FF.
  A JavaScript number is modelled by the exact rational it denotes, or by \<open>NaN\<close>;
  the rounding of a quotient to the nearest double and the overflow to Infinity are
  not part of the model.
\<close>

datatype jsnum = Num rat | NaN

fun num_div :: "jsnum \<Rightarrow> jsnum \<Rightarrow> jsnum" where
  "num_div (Num x) (Num y) = (if y = 0 then NaN else Num (x / y))"
| "num_div _ _ = NaN"

text \<open>\<open>Math.max\<close> and \<open>Math.min\<close> return NaN as soon as one argument is NaN.\<close>

fun Math_max :: "jsnum \<Rightarrow> jsnum \<Rightarrow> jsnum" where
  "Math_max (Num x) (Num y) = Num (max x y)"
| "Math_max _ _ = NaN"

fun Math_min :: "jsnum \<Rightarrow> jsnum \<Rightarrow> jsnum" where
  "Math_min (Num x) (Num y) = Num (min x y)"
| "Math_min _ _ = NaN"

text \<open>\<open>Math.round\<close> rounds to the nearest integer, a half towards plus infinity.\<close>

fun Math_round :: "jsnum \<Rightarrow> jsnum" where
  "Math_round (Num x) = Num (of_int \<lfloor>x + 1 / 2\<rfloor>)"
| "Math_round NaN = NaN"

definition clamp01 :: "jsnum \<Rightarrow> jsnum" where
  "clamp01 x = Math_min (Num 1) (Math_max (Num 0) x)"

subsection \<open>Characters and strings\<close>

definition is_digit :: "char \<Rightarrow> bool" where
  "is_digit c \<longleftrightarrow> CHR ''0'' \<le> c \<and> c \<le> CHR ''9''"

definition is_lower_hex :: "char \<Rightarrow> bool" where
  "is_lower_hex c \<longleftrightarrow> is_digit c \<or> (CHR ''a'' \<le> c \<and> c \<le> CHR ''f'')"

text \<open>The class \<open>[0-9a-f]\<close> under the flag \<open>i\<close>.\<close>

definition is_hex_digit :: "char \<Rightarrow> bool" where
  "is_hex_digit c \<longleftrightarrow> is_lower_hex c \<or> (CHR ''A'' \<le> c \<and> c \<le> CHR ''F'')"

text \<open>The class \<open>[\d.]\<close>.\<close>

definition is_digit_or_dot :: "char \<Rightarrow> bool" where
  "is_digit_or_dot c \<longleftrightarrow> is_digit c \<or> c = CHR ''.''"

text \<open>
  White space as \<open>String.prototype.trim\<close> and the class \<open>\s\<close> see it, among the code
  units below U+0100: tab, line feed, vertical tab, form feed, carriage return, space and
  the no-break space U+00A0.
\<close>

definition is_space :: "char \<Rightarrow> bool" where
  "is_space c \<longleftrightarrow> c \<in> set [CHR 0x09, CHR 0x0A, CHR 0x0B, CHR 0x0C, CHR 0x0D, CHR '' '', CHR 0xA0]"

definition trim :: "string \<Rightarrow> string" where
  "trim s = rev (dropWhile is_space (rev (dropWhile is_space s)))"

text \<open>
  \<open>toLowerCase\<close> and \<open>toUpperCase\<close> on the letters A to Z; convert.mjs applies them to
  hexadecimal digits and to the output of \<open>Number.prototype.toString\<close> only.
\<close>

definition lower_char :: "char \<Rightarrow> char" where
  "lower_char c = (if CHR ''A'' \<le> c \<and> c \<le> CHR ''Z'' then char_of (of_char c + (32::nat)) else c)"

definition upper_char :: "char \<Rightarrow> char" where
  "upper_char c = (if CHR ''a'' \<le> c \<and> c \<le> CHR ''z'' then char_of (of_char c - (32::nat)) else c)"

definition toLowerCase :: "string \<Rightarrow> string" where
  "toLowerCase s = map lower_char s"

definition toUpperCase :: "string \<Rightarrow> string" where
  "toUpperCase s = map upper_char s"

text \<open>\<open>s.slice(i, j)\<close> for \<open>0 \<le> i \<le> j\<close>.\<close>

definition slice :: "nat \<Rightarrow> nat \<Rightarrow> string \<Rightarrow> string" where
  "slice i j s = take (j - i) (drop i s)"

definition padStart :: "nat \<Rightarrow> char \<Rightarrow> string \<Rightarrow> string" where
  "padStart n c s = replicate (n - length s) c @ s"

definition startsWith :: "string \<Rightarrow> string \<Rightarrow> bool" where
  "startsWith s p \<longleftrightarrow> take (length p) s = p"

subsection \<open>Numerals\<close>

definition digit_val :: "char \<Rightarrow> nat" where
  "digit_val c = (if is_digit c then of_char c - 48
                  else if CHR ''a'' \<le> c \<and> c \<le> CHR ''f'' then of_char c - 87
                  else of_char c - 55)"

text \<open>
  \<open>parseInt(s, 16)\<close> reads the longest prefix of hexadecimal digits and gives NaN when
  there is none. (A sign, leading white space and the prefix 0x, which \<open>parseInt\<close> also
  accepts, do not occur in a string of hexadecimal digits.)
\<close>

definition parseInt16 :: "string \<Rightarrow> jsnum" where
  "parseInt16 s = (let ds = takeWhile is_hex_digit s in
     if ds = [] then NaN else Num (of_nat (foldl (\<lambda>n c. 16 * n + digit_val c) 0 ds)))"

definition dec_val :: "string \<Rightarrow> nat" where
  "dec_val ds = foldl (\<lambda>n c. 10 * n + digit_val c) 0 ds"

text \<open>
  \<open>Number(s)\<close> on a string of digits and dots, the only strings the pattern of
  \<open>parseColor\<close> hands to it: digits, digits with one dot before, inside or after them;
  a lone dot and a string with two dots are NaN; the empty string is 0.
\<close>

definition Number_js :: "string \<Rightarrow> jsnum" where
  "Number_js s =
     (let ip = takeWhile is_digit s; rest = dropWhile is_digit s in
      if rest = [] then Num (of_nat (dec_val ip))
      else if hd rest = CHR ''.'' \<and> list_all is_digit (tl rest) \<and> (ip \<noteq> [] \<or> tl rest \<noteq> [])
      then Num (of_nat (dec_val ip) + of_nat (dec_val (tl rest)) / 10 ^ length (tl rest))
      else NaN)"

fun hex_digits :: "nat \<Rightarrow> string" where
  "hex_digits n =
     (if n < 16 then [''0123456789abcdef'' ! n]
      else hex_digits (n div 16) @ [''0123456789abcdef'' ! (n mod 16)])"

declare hex_digits.simps [simp del]

text \<open>\<open>n.toString(16)\<close> for an integer \<open>n\<close> or NaN.\<close>

fun toString16 :: "jsnum \<Rightarrow> string" where
  "toString16 NaN = ''NaN''"
| "toString16 (Num x) =
     (if x < 0 then CHR ''-'' # hex_digits (nat \<lfloor>- x\<rfloor>) else hex_digits (nat \<lfloor>x\<rfloor>))"

section \<open>parseColor\<close>

record NormalizedColor =
  c_r :: jsnum
  c_g :: jsnum
  c_b :: jsnum
  c_a :: jsnum
  c_hex :: string

text \<open>
  The pattern \<open>/^#([0-9a-f]{3,4}|[0-9a-f]{6}|[0-9a-f]{8})$/i\<close>: the result is the group.
\<close>

definition match_hex :: "string \<Rightarrow> string option" where
  "match_hex v =
     (case v of
        [] \<Rightarrow> None
      | c # ds \<Rightarrow>
          if c = CHR ''#'' \<and> list_all is_hex_digit ds \<and> length ds \<in> {3, 4, 6, 8}
          then Some ds else None)"

text \<open>
  The pattern
  \<open>/^rgba?\(\s*([\d.]+)\s*,\s*([\d.]+)\s*,\s*([\d.]+)\s*(?:,\s*([\d.]+)\s*)?\)$/i\<close>,
  matched from left to right. Each class is disjoint from what follows it, so the
  greedy match is the only one.
\<close>

text \<open>A literal under the flag \<open>i\<close>: the rest of the input after it.\<close>

fun lit_ci :: "string \<Rightarrow> string \<Rightarrow> string option" where
  "lit_ci [] s = Some s"
| "lit_ci (p # ps) [] = None"
| "lit_ci (p # ps) (c # cs) = (if lower_char c = p then lit_ci ps cs else None)"

text \<open>\<open>\s*([\d.]+)\s*\<close>: the group and the rest of the input.\<close>

definition number_group :: "string \<Rightarrow> (string \<times> string) option" where
  "number_group s =
     (let s1 = dropWhile is_space s; n = takeWhile is_digit_or_dot s1
      in if n = [] then None
         else Some (n, dropWhile is_space (dropWhile is_digit_or_dot s1)))"

text \<open>\<open>^rgba?\(\<close>\<close>

definition rgb_head :: "string \<Rightarrow> string option" where
  "rgb_head v =
     (case lit_ci ''rgb'' v of
        None \<Rightarrow> None
      | Some s0 \<Rightarrow> lit_ci ''('' (case lit_ci ''a'' s0 of Some s \<Rightarrow> s | None \<Rightarrow> s0))"

text \<open>\<open>,\s*([\d.]+)\s*\<close>\<close>

definition comma_number :: "string \<Rightarrow> (string \<times> string) option" where
  "comma_number s = (case lit_ci '','' s of None \<Rightarrow> None | Some s' \<Rightarrow> number_group s')"

text \<open>\<open>(?:,\s*([\d.]+)\s*)?\)$\<close>: the fourth group, if it took part in the match.\<close>

definition rgb_tail :: "string \<Rightarrow> string option option" where
  "rgb_tail s =
     (if s = '')'' then Some None
      else (case comma_number s of
              None \<Rightarrow> None
            | Some (n4, s') \<Rightarrow> if s' = '')'' then Some (Some n4) else None))"

definition match_rgb :: "string \<Rightarrow> (string \<times> string \<times> string \<times> string option) option" where
  "match_rgb v =
     do {
       s1 \<leftarrow> rgb_head v;
       (n1, s2) \<leftarrow> number_group s1;
       (n2, s3) \<leftarrow> comma_number s2;
       (n3, s4) \<leftarrow> comma_number s3;
       g4 \<leftarrow> rgb_tail s4;
       Some (n1, n2, n3, g4)
     }"

definition toHex :: "jsnum \<Rightarrow> string" where
  "toHex n = toUpperCase (padStart 2 (CHR ''0'') (toString16 (Math_round n)))"

text \<open>
  \<open>parseColor(v)\<close>; \<open>None\<close> is the result \<open>null\<close>. A nullish \<open>v\<close> is replaced by
  the empty string before anything else, so the argument is a string.
\<close>

definition parseColor :: "string \<Rightarrow> NormalizedColor option" where
  "parseColor v0 =
     (let v = trim v0 in
      if v = ''transparent''
      then Some \<lparr>c_r = Num 0, c_g = Num 0, c_b = Num 0, c_a = Num 0, c_hex = ''#000000''\<rparr>
      else
        (case match_hex v of
           Some g1 \<Rightarrow>
             (let h0 = toLowerCase g1;
                  h = (if length h0 = 3 \<or> length h0 = 4
                       then concat (map (\<lambda>ch. [ch, ch]) h0) else h0);
                  r = parseInt16 (slice 0 2 h);
                  g = parseInt16 (slice 2 4 h);
                  b = parseInt16 (slice 4 6 h);
                  a = (if length h = 8 then num_div (parseInt16 (slice 6 8 h)) (Num 255)
                       else Num 1)
              in Some \<lparr>c_r = num_div r (Num 255), c_g = num_div g (Num 255),
                       c_b = num_div b (Num 255), c_a = clamp01 a,
                       c_hex = CHR ''#'' # toUpperCase (slice 0 6 h)\<rparr>)
         | None \<Rightarrow>
             (case match_rgb v of
                Some (g1, g2, g3, g4) \<Rightarrow>
                  (let r = Number_js g1;
                       g = Number_js g2;
                       b = Number_js g3;
                       a = (case g4 of None \<Rightarrow> Num 1 | Some s \<Rightarrow> Number_js s)
                   in Some \<lparr>c_r = clamp01 (num_div r (Num 255)),
                            c_g = clamp01 (num_div g (Num 255)),
                            c_b = clamp01 (num_div b (Num 255)),
                            c_a = clamp01 a,
                            c_hex = CHR ''#'' # toHex r @ toHex g @ toHex b\<rparr>)
              | None \<Rightarrow> None)))"

text \<open>
  Two abbreviations for the proofs about the hexadecimal branch: the doubling
  \<open>[...h].map((ch) => ch + ch).join("")\<close>, and the record the branch returns for the
  digit string \<open>h\<close> it has built.
\<close>

definition double_digits :: "string \<Rightarrow> string" where
  "double_digits h = concat (map (\<lambda>ch. [ch, ch]) h)"

definition hex_result :: "string \<Rightarrow> NormalizedColor" where
  "hex_result h =
     \<lparr>c_r = num_div (parseInt16 (slice 0 2 h)) (Num 255),
      c_g = num_div (parseInt16 (slice 2 4 h)) (Num 255),
      c_b = num_div (parseInt16 (slice 4 6 h)) (Num 255),
      c_a = clamp01 (if length h = 8 then num_div (parseInt16 (slice 6 8 h)) (Num 255) else Num 1),
      c_hex = CHR ''#'' # toUpperCase (slice 0 6 h)\<rparr>"

section \<open>Tokens and token paths\<close>

text \<open>
  An object is the list of its own properties in insertion order. A property holds a
  string, the record under \<open>$value\<close>, or a reference to another object (an address of
  the store introduced below). The record under \<open>$value\<close> and its array of components
  are built once by \<open>makeDtcgColorTokenFromParsedColor\<close> and never written again, so
  they are kept as one immutable value.
\<close>

record DtcgValue =
  colorSpace :: string
  components :: "jsnum list"
  alpha :: jsnum
  hex :: string

datatype jsval = Str string | Data DtcgValue | Ref nat

type_synonym jsobj = "(string \<times> jsval) list"

definition makeDtcgColorTokenFromParsedColor :: "NormalizedColor \<Rightarrow> jsobj" where
  "makeDtcgColorTokenFromParsedColor c =
     [(''$type'', Str ''color''),
      (''$value'', Data \<lparr>colorSpace = ''srgb'', components = [c_r c, c_g c, c_b c],
                          alpha = c_a c, hex = c_hex c\<rparr>)]"

definition TRANSPARENT_TOKEN :: jsobj where
  "TRANSPARENT_TOKEN =
     makeDtcgColorTokenFromParsedColor
       \<lparr>c_r = Num 0, c_g = Num 0, c_b = Num 0, c_a = Num 0, c_hex = ''#000000''\<rparr>"

text \<open>\<open>n.replace(/^p/, "")\<close> for a literal \<open>p\<close>.\<close>

definition replace_prefix :: "string \<Rightarrow> string \<Rightarrow> string" where
  "replace_prefix p n = (if startsWith n p then drop (length p) n else n)"

text \<open>\<open>n.split(d)\<close> for a separator of one character: never an empty list.\<close>

fun split_on :: "char \<Rightarrow> string \<Rightarrow> string list" where
  "split_on d [] = [[]]"
| "split_on d (c # cs) =
     (if c = d then [] # split_on d cs
      else (case split_on d cs of [] \<Rightarrow> [[c]] | p # ps \<Rightarrow> (c # p) # ps))"

fun join :: "string \<Rightarrow> string list \<Rightarrow> string" where
  "join sep [] = []"
| "join sep [x] = x"
| "join sep (x # y # ys) = x @ sep @ join sep (y # ys)"

definition toTokenPath :: "string \<Rightarrow> string list" where
  "toTokenPath cssVarName =
     (let n = trim cssVarName;
          n = replace_prefix ''--'' n;
          n = replace_prefix ''vscode-'' n;
          parts = split_on (CHR ''-'') n
      in if length parts = 1 then [''vscode'', parts ! 0]
         else [''vscode'', parts ! 0, join ''-'' (drop 1 parts)])"

text \<open>
  The resolver as the specification words it, for comparison with \<open>toTokenPath\<close>: strip
  one leading \<open>--\<close>, strip one leading \<open>vscode-\<close>, split the rest on \<open>-\<close>; one
  segment gives \<open>["vscode", segment]\<close>, more give the first segment and the others joined.
\<close>

definition resolve_as_stated :: "string \<Rightarrow> string list" where
  "resolve_as_stated rawName =
     (let segments = split_on (CHR ''-'') (replace_prefix ''vscode-'' (replace_prefix ''--'' rawName))
      in (case segments of
            [segment] \<Rightarrow> [''vscode'', segment]
          | _ \<Rightarrow> [''vscode'', hd segments, join ''-'' (tl segments)]))"

section \<open>flattenCssVarsToColorTokens\<close>

text \<open>
  \<open>cssVars\<close> is given by its entries in the order of \<open>Object.entries\<close>. The
  assignment \<open>flat[k] = t\<close> replaces the value of an own property or adds the property
  at the end, which is \<open>AList.update\<close>.
\<close>

fun flatten_loop :: "(string \<times> string) list \<Rightarrow> (string \<times> jsobj) list \<Rightarrow> (string \<times> jsobj) list" where
  "flatten_loop [] flat = flat"
| "flatten_loop ((k, v) # es) flat =
     (if \<not> startsWith k ''--vscode-'' then flatten_loop es flat
      else (case parseColor v of
              None \<Rightarrow> flatten_loop es flat
            | Some c \<Rightarrow> flatten_loop es (AList.update k (makeDtcgColorTokenFromParsedColor c) flat)))"

definition flattenCssVarsToColorTokens :: "(string \<times> string) list \<Rightarrow> (string \<times> jsobj) list" where
  "flattenCssVarsToColorTokens cssVars = flatten_loop cssVars []"

text \<open>
  Two abbreviations for the proofs about the extractor: the test an entry passes to be
  kept, and the entry it then contributes.
\<close>

definition kept :: "string \<times> string \<Rightarrow> bool" where
  "kept e \<longleftrightarrow> startsWith (fst e) ''--vscode-'' \<and> parseColor (snd e) \<noteq> None"

definition token_of :: "string \<times> string \<Rightarrow> string \<times> jsobj" where
  "token_of e = (fst e, makeDtcgColorTokenFromParsedColor (the (parseColor (snd e))))"

section \<open>The store of objects\<close>

text \<open>
  \<open>setNested\<close> writes into objects that other places still refer to: a token lies in the
  flat map and in the tree, and \<open>TRANSPARENT_TOKEN\<close> is one object shared by every
  placeholder of every source. Objects therefore live in a store, at addresses, and a
  property that holds an object holds its address.

  The model follows own properties only. Where the code would read a property that
  \<open>Object.prototype\<close> provides (\<open>constructor\<close>, \<open>toString\<close>, \<open>__proto__\<close> and so
  on) or assign \<open>__proto__\<close>, what happens depends on objects of the runtime that are
  not in the store; the model stops there with \<open>Outside_model\<close>. \<open>TypeError\<close> is the
  exception of strict mode (the file is a module) for a property created on a string.
  The order of the properties of an object is the order of insertion; that JavaScript
  lists keys that are array indices first is not modelled, and no statement below
  depends on the order of the properties of a tree node.
\<close>

record store =
  cells :: "(nat \<times> jsobj) list"
  next_free :: nat

text \<open>The object at an address, and the store with the object at an address replaced.\<close>

definition objects :: "store \<Rightarrow> nat \<Rightarrow> jsobj" where
  "objects s a = (case map_of (cells s) a of None \<Rightarrow> [] | Some obj \<Rightarrow> obj)"

definition put :: "nat \<Rightarrow> jsobj \<Rightarrow> store \<Rightarrow> store" where
  "put a obj s = s\<lparr>cells := AList.update a obj (cells s)\<rparr>"

datatype failure = TypeError | Outside_model

definition Object_prototype_names :: "string list" where
  "Object_prototype_names =
     [''constructor'', ''__defineGetter__'', ''__defineSetter__'', ''hasOwnProperty'',
      ''__lookupGetter__'', ''__lookupSetter__'', ''isPrototypeOf'', ''propertyIsEnumerable'',
      ''toString'', ''valueOf'', ''__proto__'', ''toLocaleString'']"

text \<open>A new object: \<open>{}\<close> or an object literal.\<close>

definition alloc :: "jsobj \<Rightarrow> store \<Rightarrow> nat \<times> store" where
  "alloc obj s =
     (next_free s, (put (next_free s) obj s)\<lparr>next_free := Suc (next_free s)\<rparr>)"

text \<open>\<open>obj[k]\<close> read on an object given by its own properties; \<open>None\<close> is \<open>undefined\<close>.\<close>

definition get_member :: "(string \<times> 'a) list \<Rightarrow> string \<Rightarrow> failure + 'a option" where
  "get_member props k =
     (case map_of props k of
        Some v \<Rightarrow> Inr (Some v)
      | None \<Rightarrow> if k \<in> set Object_prototype_names then Inl Outside_model else Inr None)"

text \<open>\<open>cur[k] = v\<close> on the object at address \<open>cur\<close>.\<close>

definition set_member :: "store \<Rightarrow> nat \<Rightarrow> string \<Rightarrow> jsval \<Rightarrow> failure + store" where
  "set_member s cur k v =
     (if k = ''__proto__'' then Inl Outside_model
      else Inr (put cur (AList.update k v (objects s cur)) s))"

section \<open>setNested and nestFlatTokens\<close>

text \<open>
  \<open>setNested(obj, pathArr, value)\<close>. The loop runs over all segments but the last one;
  \<open>cur[k] ??= {}\<close> creates an object where the property is missing and keeps whatever
  is there otherwise, be it a plain object or a token. For an empty \<open>pathArr\<close> the last
  line writes the property named \<open>undefined\<close>.
\<close>

fun setNested :: "store \<Rightarrow> nat \<Rightarrow> string list \<Rightarrow> jsval \<Rightarrow> failure + store" where
  "setNested s cur [] v = set_member s cur ''undefined'' v"
| "setNested s cur [k] v = set_member s cur k v"
| "setNested s cur (k # k' # ks) v =
     (case get_member (objects s cur) k of
        Inl e \<Rightarrow> Inl e
      | Inr None \<Rightarrow>
          (let (a, s1) = alloc [] s in
           case set_member s1 cur k (Ref a) of
             Inl e \<Rightarrow> Inl e
           | Inr s2 \<Rightarrow> setNested s2 a (k' # ks) v)
      | Inr (Some (Ref a)) \<Rightarrow> setNested s a (k' # ks) v
      | Inr (Some (Str x)) \<Rightarrow> Inl TypeError
      | Inr (Some (Data d)) \<Rightarrow> Inl Outside_model)"

text \<open>
  \<open>nestFlatTokens(flatMap, orderedKeys)\<close>. The flat map holds the addresses of its
  tokens; a token is an object and so never falsy.
\<close>

fun nest_loop :: "store \<Rightarrow> nat \<Rightarrow> (string \<times> nat) list \<Rightarrow> string list \<Rightarrow> failure + store" where
  "nest_loop s out flatMap [] = Inr s"
| "nest_loop s out flatMap (k # ks) =
     (case get_member flatMap k of
        Inl e \<Rightarrow> Inl e
      | Inr None \<Rightarrow> nest_loop s out flatMap ks
      | Inr (Some token) \<Rightarrow>
          (case setNested s out (toTokenPath k) (Ref token) of
             Inl e \<Rightarrow> Inl e
           | Inr s' \<Rightarrow> nest_loop s' out flatMap ks))"

definition nestFlatTokens ::
  "store \<Rightarrow> (string \<times> nat) list \<Rightarrow> string list option \<Rightarrow> failure + nat \<times> store" where
  "nestFlatTokens s flatMap orderedKeys =
     (let (out, s0) = alloc [] s;
          keys = (case orderedKeys of None \<Rightarrow> map fst flatMap | Some ks \<Rightarrow> ks)
      in case nest_loop s0 out flatMap keys of
           Inl e \<Rightarrow> Inl e
         | Inr s' \<Rightarrow> Inr (out, s'))"

text \<open>
  What a reader of the tree finds under a path of own properties: the view that
  \<open>JSON.stringify\<close> and \<open>countLeafTokens\<close> have of it.
\<close>

fun lookup_path :: "store \<Rightarrow> jsval \<Rightarrow> string list \<Rightarrow> jsval option" where
  "lookup_path s v [] = Some v"
| "lookup_path s (Ref a) (k # ks) =
     (case map_of (objects s a) k of None \<Rightarrow> None | Some v \<Rightarrow> lookup_path s v ks)"
| "lookup_path s (Str x) (k # ks) = None"
| "lookup_path s (Data d) (k # ks) = None"

section \<open>The main process\<close>

text \<open>
  Reading the input files, writing the output files and printing the tables are left
  out. An input is the base name of a file and the variables read from it. The store a
  run starts from holds \<open>TRANSPARENT_TOKEN\<close>, created when the module is loaded.
\<close>

definition TT :: nat where
  "TT = 0"

definition initial_store :: store where
  "initial_store = \<lparr>cells = [(TT, TRANSPARENT_TOKEN)], next_free = Suc TT\<rparr>"

record item =
  it_name :: string
  it_flat :: "(string \<times> nat) list"
  it_nested :: nat

text \<open>
  The tokens of a flat map are objects of their own: each
  \<open>makeDtcgColorTokenFromParsedColor(c)\<close> creates one.
\<close>

fun store_tokens :: "(string \<times> jsobj) list \<Rightarrow> store \<Rightarrow> (string \<times> nat) list \<times> store" where
  "store_tokens [] s = ([], s)"
| "store_tokens ((k, t) # es) s =
     (let (a, s1) = alloc t s; (rs, s2) = store_tokens es s1 in ((k, a) # rs, s2))"

text \<open>Step 1 of \<open>main\<close>: every input becomes an item.\<close>

fun convert_inputs ::
  "store \<Rightarrow> (string \<times> (string \<times> string) list) list \<Rightarrow> failure + store \<times> item list" where
  "convert_inputs s [] = Inr (s, [])"
| "convert_inputs s ((n, vars) # inputs) =
     (let (fl, s1) = store_tokens (flattenCssVarsToColorTokens vars) s in
      case nestFlatTokens s1 fl None of
        Inl e \<Rightarrow> Inl e
      | Inr (tree, s2) \<Rightarrow>
          (case convert_inputs s2 inputs of
             Inl e \<Rightarrow> Inl e
           | Inr (s3, items) \<Rightarrow> Inr (s3, \<lparr>it_name = n, it_flat = fl, it_nested = tree\<rparr> # items)))"

text \<open>
  Step 2, the union. \<open>unionKeys\<close> is the set of all keys, sorted by the default order
  of \<open>Array.prototype.sort\<close>, which on strings is the lexicographic order of code units.
\<close>

definition unionKeys_of :: "item list \<Rightarrow> string list" where
  "unionKeys_of items = sort (remdups (concat (map (\<lambda>it. map fst (it_flat it)) items)))"

record report_entry =
  missing :: "string list"
  present :: int

record union_row =
  row_name :: string
  unionFlat :: "(string \<times> nat) list"
  unionNested :: nat

text \<open>The inner loop over \<open>unionKeys\<close>, which builds \<open>missing\<close> and \<open>unionFlat\<close>.\<close>

fun fill_loop ::
  "(string \<times> nat) list \<Rightarrow> string list \<Rightarrow> string list \<times> (string \<times> nat) list
     \<Rightarrow> failure + string list \<times> (string \<times> nat) list" where
  "fill_loop fl [] acc = Inr acc"
| "fill_loop fl (k # ks) (mis, uf) =
     (case get_member fl k of
        Inl e \<Rightarrow> Inl e
      | Inr (Some token) \<Rightarrow> fill_loop fl ks (mis, AList.update k token uf)
      | Inr None \<Rightarrow> fill_loop fl ks (mis @ [k], AList.update k TT uf))"

text \<open>The body of the loop over the items, and the loop.\<close>

definition union_item ::
  "store \<Rightarrow> string list \<Rightarrow> item \<Rightarrow> failure + store \<times> union_row \<times> report_entry" where
  "union_item s unionKeys it =
     (case fill_loop (it_flat it) unionKeys ([], []) of
        Inl e \<Rightarrow> Inl e
      | Inr (mis, uf) \<Rightarrow>
          (case nestFlatTokens s uf (Some unionKeys) of
             Inl e \<Rightarrow> Inl e
           | Inr (tree, s') \<Rightarrow>
               Inr (s', \<lparr>row_name = it_name it, unionFlat = uf, unionNested = tree\<rparr>,
                    \<lparr>missing = mis, present = int (length unionKeys) - int (length mis)\<rparr>)))"

fun union_loop ::
  "store \<Rightarrow> string list \<Rightarrow> item list \<Rightarrow> (string \<times> report_entry) list \<Rightarrow> union_row list
     \<Rightarrow> failure + store \<times> (string \<times> report_entry) list \<times> union_row list" where
  "union_loop s unionKeys [] report rows = Inr (s, report, rows)"
| "union_loop s unionKeys (it # items) report rows =
     (case union_item s unionKeys it of
        Inl e \<Rightarrow> Inl e
      | Inr (s', row, entry) \<Rightarrow>
          union_loop s' unionKeys items (AList.update (it_name it) entry report) (rows @ [row]))"

record union_result =
  totalUnionKeys :: nat
  report :: "(string \<times> report_entry) list"
  union_rows :: "union_row list"

text \<open>
  The union block of \<open>main\<close>; \<open>None\<close> when the block is skipped (\<open>--no-union\<close>, or
  fewer than two items).
\<close>

definition union_block ::
  "bool \<Rightarrow> store \<Rightarrow> item list \<Rightarrow> (failure + store \<times> union_result) option" where
  "union_block unionEnabled s items =
     (if unionEnabled \<and> length items \<ge> 2 then
        Some (let unionKeys = unionKeys_of items in
              case union_loop s unionKeys items [] [] of
                Inl e \<Rightarrow> Inl e
              | Inr (s', rep, rows) \<Rightarrow>
                  Inr (s', \<lparr>totalUnionKeys = length unionKeys, report = rep, union_rows = rows\<rparr>))
      else None)"

definition main :: "bool \<Rightarrow> (string \<times> (string \<times> string) list) list
                      \<Rightarrow> failure + item list \<times> (store \<times> union_result) option" where
  "main unionEnabled inputs =
     (case convert_inputs initial_store inputs of
        Inl e \<Rightarrow> Inl e
      | Inr (s, items) \<Rightarrow>
          (case union_block unionEnabled s items of
             None \<Rightarrow> Inr (items, None)
           | Some (Inl e) \<Rightarrow> Inl e
           | Some (Inr r) \<Rightarrow> Inr (items, Some r)))"

text \<open>An abbreviation for the proofs about the report: the counts of an entry add up.\<close>

definition adds_up :: "nat \<Rightarrow> report_entry \<Rightarrow> bool" where
  "adds_up n e \<longleftrightarrow> present e + int (length (missing e)) = int n \<and> 0 \<le> present e"

section \<open>Predicates for the proofs about the tree\<close>






text \<open>
  A plain node is an object all of whose properties hold objects: the root of a tree, the
  \<open>vscode\<close> node and the group nodes that \<open>setNested\<close> creates. A token is no plain
  node: it has the property \<open>$type\<close>, a string, or \<open>$value\<close>, a record.
\<close>

definition plain_node :: "jsobj \<Rightarrow> bool" where
  "plain_node obj \<longleftrightarrow> list_all (\<lambda>(p, v). case v of Ref a \<Rightarrow> True | _ \<Rightarrow> False) obj"

text \<open>
  What a tree may hold: an object of the store is known, given the items, when it is a
  plain node, the placeholder \<open>TRANSPARENT_TOKEN\<close>, or the token of a name that starts
  with \<open>--vscode-\<close> in the flat token set of an item.
\<close>

definition known_object :: "store \<Rightarrow> item list \<Rightarrow> nat \<Rightarrow> bool" where
  "known_object s items a \<longleftrightarrow>
     plain_node (objects s a) \<or> a = TT \<or>
     list_ex (\<lambda>it. list_ex (\<lambda>(k, t). t = a \<and> startsWith k ''--vscode-'') (it_flat it)) items"


section \<open>Properties of parseColor\<close>

lemma hex_digit_not_space: "is_hex_digit c \<Longrightarrow> \<not> is_space c"
  by (auto simp: is_hex_digit_def is_lower_hex_def is_digit_def is_space_def less_eq_char_def)

lemma hash_not_space: "\<not> is_space (CHR ''#'')"
  by (simp add: is_space_def)

lemma trim_no_space:
  assumes "s \<noteq> []" "\<not> is_space (hd s)" "\<not> is_space (last s)"
  shows "trim s = s"
proof -
  have 1: "dropWhile is_space s = s" using assms by (cases s) auto
  have "rev s \<noteq> []" "\<not> is_space (hd (rev s))" using assms by (auto simp: hd_rev)
  then have 2: "dropWhile is_space (rev s) = rev s" by (cases "rev s") auto
  show ?thesis by (simp add: trim_def 1 2)
qed

lemma trim_hash_hex:
  assumes "list_all is_hex_digit ds"
  shows "trim (CHR ''#'' # ds) = CHR ''#'' # ds"
proof (rule trim_no_space)
  show "\<not> is_space (last (CHR ''#'' # ds))"
  proof (cases "ds = []")
    case True then show ?thesis by (simp add: hash_not_space)
  next
    case False
    then have "last ds \<in> set ds" by simp
    with assms have "is_hex_digit (last ds)" by (simp add: list_all_iff)
    with False show ?thesis by (simp add: hex_digit_not_space)
  qed
qed (simp_all add: hash_not_space)

lemma lower_hex_digit: "is_hex_digit c \<Longrightarrow> is_lower_hex (lower_char c)"
  by (auto simp: is_hex_digit_def is_lower_hex_def is_digit_def lower_char_def less_eq_char_def)

lemma upper_lower_hex: "is_hex_digit c \<Longrightarrow> upper_char (lower_char c) = upper_char c"
  by (auto simp: is_hex_digit_def is_lower_hex_def is_digit_def lower_char_def upper_char_def less_eq_char_def)

lemma digit_val_lower: "is_hex_digit c \<Longrightarrow> digit_val (lower_char c) = digit_val c"
  by (auto simp: is_hex_digit_def is_lower_hex_def is_digit_def lower_char_def digit_val_def less_eq_char_def)

lemma digit_val_le: "is_hex_digit c \<Longrightarrow> digit_val c \<le> 15"
  by (auto simp: is_hex_digit_def is_lower_hex_def is_digit_def digit_val_def less_eq_char_def)

lemma is_hex_lower: "is_hex_digit (lower_char c) = is_hex_digit c"
  by (auto simp: is_hex_digit_def is_lower_hex_def is_digit_def lower_char_def less_eq_char_def)

lemma match_hex_digits:
  "list_all is_hex_digit ds \<Longrightarrow> length ds \<in> {3, 4, 6, 8} \<Longrightarrow> match_hex (CHR ''#'' # ds) = Some ds"
  by (simp add: match_hex_def)

lemma parseColor_hex:
  assumes "list_all is_hex_digit ds" and "length ds \<in> {3, 4, 6, 8}"
  shows "parseColor (CHR ''#'' # ds) =
           Some (hex_result (if length ds = 3 \<or> length ds = 4
                             then double_digits (toLowerCase ds) else toLowerCase ds))"
proof -
  have "trim (CHR ''#'' # ds) = CHR ''#'' # ds" using assms(1) by (rule trim_hash_hex)
  moreover have "match_hex (CHR ''#'' # ds) = Some ds" using assms by (rule match_hex_digits)
  ultimately show ?thesis
    by (simp add: parseColor_def Let_def hex_result_def double_digits_def toLowerCase_def)
qed

lemma double_digits_lower: "toLowerCase (double_digits ds) = double_digits (toLowerCase ds)"
  by (induction ds) (simp_all add: double_digits_def toLowerCase_def)

lemma length_double_digits: "length (double_digits ds) = 2 * length ds"
  by (induction ds) (simp_all add: double_digits_def)

lemma double_digits_hex: "list_all is_hex_digit ds \<Longrightarrow> list_all is_hex_digit (double_digits ds)"
  by (induction ds) (simp_all add: double_digits_def)

lemma parseInt16_pair:
  "is_hex_digit x \<Longrightarrow> is_hex_digit y \<Longrightarrow>
     parseInt16 [lower_char x, lower_char y] = Num (of_nat (16 * digit_val x + digit_val y))"
  by (simp add: parseInt16_def is_hex_lower digit_val_lower)

lemma clamp01_unit: "0 \<le> x \<Longrightarrow> x \<le> 1 \<Longrightarrow> clamp01 (Num x) = Num x"
  by (simp add: clamp01_def)

lemma upper_hash: "upper_char (CHR ''#'') = CHR ''#''"
  by (simp add: upper_char_def)

lemma len6: "length xs = 6 \<Longrightarrow> \<exists>a b c d e f. xs = [a, b, c, d, e, f]"
  by (auto simp: numeral_eq_Suc length_Suc_conv)

lemma len8: "length xs = 8 \<Longrightarrow> \<exists>a b c d e f g h. xs = [a, b, c, d, e, f, g, h]"
  by (auto simp: numeral_eq_Suc length_Suc_conv)

lemma len3: "length xs = 3 \<Longrightarrow> \<exists>a b c. xs = [a, b, c]"
  by (auto simp: numeral_eq_Suc length_Suc_conv)

lemma len4: "length xs = 4 \<Longrightarrow> \<exists>a b c d. xs = [a, b, c, d]"
  by (auto simp: numeral_eq_Suc length_Suc_conv)

lemma pair_byte:
  assumes "is_hex_digit x" "is_hex_digit y"
  shows "clamp01 (Num (of_nat (16 * digit_val x + digit_val y) / 255)) =
           Num (of_nat (16 * digit_val x + digit_val y) / 255)"
proof (rule clamp01_unit)
  have "digit_val x \<le> 15" "digit_val y \<le> 15" using assms by (simp_all add: digit_val_le)
  then have le: "16 * digit_val x + digit_val y \<le> 255" by simp
  show "(0::rat) \<le> of_nat (16 * digit_val x + digit_val y) / 255" by simp
  have "(of_nat (16 * digit_val x + digit_val y) :: rat) \<le> of_nat 255"
    using le by (simp only: of_nat_le_iff)
  then show "(of_nat (16 * digit_val x + digit_val y) :: rat) / 255 \<le> 1" by simp
qed

text \<open>
  C8: a 3-digit input \<open>#RGB\<close> is parsed to a colour, and the 6-digit input with every
  digit doubled is parsed to the same colour; likewise a 4-digit input and its doubled
  8-digit input. Each component of this colour is the byte that the doubled digit
  spells, divided by 255, alpha is 1 for three digits and the fourth doubled digit for
  four, and \<open>hex\<close> is the first three digits doubled, in upper case.
\<close>

theorem short_hex_equals_doubled:
  assumes "list_all is_hex_digit ds" and "length ds = 3 \<or> length ds = 4"
  shows "\<exists>c. parseColor (CHR ''#'' # ds) = Some c \<and>
             parseColor (CHR ''#'' # concat (map (\<lambda>ch. [ch, ch]) ds)) = Some c \<and>
             c_r c = Num (of_nat (16 * digit_val (ds ! 0) + digit_val (ds ! 0)) / 255) \<and>
             c_g c = Num (of_nat (16 * digit_val (ds ! 1) + digit_val (ds ! 1)) / 255) \<and>
             c_b c = Num (of_nat (16 * digit_val (ds ! 2) + digit_val (ds ! 2)) / 255) \<and>
             c_a c = (if length ds = 4
                      then Num (of_nat (16 * digit_val (ds ! 3) + digit_val (ds ! 3)) / 255)
                      else Num 1) \<and>
             c_hex c = CHR ''#'' # toUpperCase (concat (map (\<lambda>ch. [ch, ch]) (take 3 ds)))"
proof -
  let ?dd = "double_digits ds"
  let ?c = "hex_result (double_digits (toLowerCase ds))"
  have len: "length ?dd = 6 \<or> length ?dd = 8"
    using assms(2) by (auto simp: length_double_digits)
  have "parseColor (CHR ''#'' # ?dd) = Some (hex_result (toLowerCase ?dd))"
    using parseColor_hex [OF double_digits_hex [OF assms(1)]] len by auto
  then have p2: "parseColor (CHR ''#'' # concat (map (\<lambda>ch. [ch, ch]) ds)) = Some ?c"
    by (simp add: double_digits_lower) (simp add: double_digits_def)
  have p1: "parseColor (CHR ''#'' # ds) = Some ?c"
    using parseColor_hex [OF assms(1)] assms(2) by auto
  from assms(2) have comps:
    "c_r ?c = Num (of_nat (16 * digit_val (ds ! 0) + digit_val (ds ! 0)) / 255) \<and>
     c_g ?c = Num (of_nat (16 * digit_val (ds ! 1) + digit_val (ds ! 1)) / 255) \<and>
     c_b ?c = Num (of_nat (16 * digit_val (ds ! 2) + digit_val (ds ! 2)) / 255) \<and>
     c_a ?c = (if length ds = 4
               then Num (of_nat (16 * digit_val (ds ! 3) + digit_val (ds ! 3)) / 255)
               else Num 1) \<and>
     c_hex ?c = CHR ''#'' # toUpperCase (concat (map (\<lambda>ch. [ch, ch]) (take 3 ds)))"
  proof
    assume "length ds = 3"
    then obtain a b c where ds: "ds = [a, b, c]" using len3 by blast
    have h: "is_hex_digit a" "is_hex_digit b" "is_hex_digit c" using assms(1) ds by simp_all
    show ?thesis
      using h
      by (simp add: ds hex_result_def double_digits_def toLowerCase_def toUpperCase_def slice_def
            parseInt16_pair clamp01_def upper_lower_hex)
  next
    assume "length ds = 4"
    then obtain a b c d where ds: "ds = [a, b, c, d]" using len4 by blast
    have h: "is_hex_digit a" "is_hex_digit b" "is_hex_digit c" "is_hex_digit d"
      using assms(1) ds by simp_all
    show ?thesis
      using h pair_byte [OF h(4) h(4)]
      by (simp add: ds hex_result_def double_digits_def toLowerCase_def toUpperCase_def slice_def
            parseInt16_pair upper_lower_hex)
  qed
  from p1 p2 comps show ?thesis by blast
qed

theorem short_hex_equals_doubled_witness:
  "list_all is_hex_digit ''abc'' \<and> length ''abc'' = 3 \<and>
   (\<exists>c. parseColor ''#abc'' = Some c \<and> parseColor ''#aabbcc'' = Some c \<and>
        c_r c = Num (170 / 255) \<and> c_g c = Num (187 / 255) \<and> c_b c = Num (204 / 255) \<and>
        c_a c = Num 1 \<and> c_hex c = ''#AABBCC'') \<and>
   list_all is_hex_digit ''FfC8'' \<and> length ''FfC8'' = 4 \<and>
   (\<exists>c. parseColor ''#FfC8'' = Some c \<and> parseColor ''#FFffCC88'' = Some c \<and>
        c_r c = Num 1 \<and> c_g c = Num 1 \<and> c_b c = Num (204 / 255) \<and>
        c_a c = Num (136 / 255) \<and> c_hex c = ''#FFFFCC'')"
proof -
  have h1: "list_all is_hex_digit ''abc''"
    by (simp add: is_hex_digit_def is_lower_hex_def is_digit_def)
  have h2: "list_all is_hex_digit ''FfC8''"
    by (simp add: is_hex_digit_def is_lower_hex_def is_digit_def)
  have v: "digit_val (CHR ''a'') = 10" "digit_val (CHR ''b'') = 11" "digit_val (CHR ''c'') = 12"
    "digit_val (CHR ''F'') = 15" "digit_val (CHR ''f'') = 15" "digit_val (CHR ''C'') = 12"
    "digit_val (CHR ''8'') = 8"
    by code_simp+
  have u: "toUpperCase ''aabbcc'' = ''AABBCC''" "toUpperCase ''FFffCC'' = ''FFFFCC''"
    by code_simp+
  show ?thesis
    using h1 h2 short_hex_equals_doubled [OF h1] short_hex_equals_doubled [OF h2]
    by (simp add: v u)
qed

text \<open>
  C2: for a 6-digit input \<open>#RRGGBB\<close> the result has alpha 1 and its \<open>hex\<close> is the
  input in upper case; for an 8-digit input alpha is the last pair of digits read as a
  byte, divided by 255, and \<open>hex\<close> is the first six digits in upper case after \<open>#\<close>.
\<close>

theorem hex6_hex8_alpha_and_hex:
  assumes "list_all is_hex_digit ds"
  shows "(length ds = 6 \<longrightarrow>
            (\<exists>c. parseColor (CHR ''#'' # ds) = Some c \<and> c_a c = Num 1 \<and>
                 c_hex c = toUpperCase (CHR ''#'' # ds))) \<and>
         (length ds = 8 \<longrightarrow>
            (\<exists>c. parseColor (CHR ''#'' # ds) = Some c \<and>
                 c_a c = Num (of_nat (16 * digit_val (ds ! 6) + digit_val (ds ! 7)) / 255) \<and>
                 c_hex c = CHR ''#'' # toUpperCase (take 6 ds)))"
proof (intro conjI impI)
  assume l: "length ds = 6"
  then obtain a b c d e f where ds: "ds = [a, b, c, d, e, f]" using len6 by blast
  have "parseColor (CHR ''#'' # ds) = Some (hex_result (toLowerCase ds))"
    using parseColor_hex [OF assms] l by simp
  moreover have "c_a (hex_result (toLowerCase ds)) = Num 1"
    by (simp add: hex_result_def toLowerCase_def ds clamp01_def)
  moreover have "c_hex (hex_result (toLowerCase ds)) = toUpperCase (CHR ''#'' # ds)"
    using assms by (simp add: hex_result_def toLowerCase_def toUpperCase_def ds slice_def upper_lower_hex upper_hash)
  ultimately show "\<exists>c. parseColor (CHR ''#'' # ds) = Some c \<and> c_a c = Num 1 \<and>
                 c_hex c = toUpperCase (CHR ''#'' # ds)" by simp
next
  assume l: "length ds = 8"
  then obtain a b c d e f g h where ds: "ds = [a, b, c, d, e, f, g, h]" using len8 by blast
  have p: "parseColor (CHR ''#'' # ds) = Some (hex_result (toLowerCase ds))"
    using parseColor_hex [OF assms] l by simp
  have gh: "is_hex_digit g" "is_hex_digit h" using assms ds by simp_all
  have "digit_val g \<le> 15" "digit_val h \<le> 15" using gh by (simp_all add: digit_val_le)
  then have le: "16 * digit_val g + digit_val h \<le> 255" by simp
  have "c_a (hex_result (toLowerCase ds)) =
          clamp01 (Num (of_nat (16 * digit_val g + digit_val h) / 255))"
    using gh by (simp add: hex_result_def toLowerCase_def ds slice_def parseInt16_pair)
  also have "\<dots> = Num (of_nat (16 * digit_val g + digit_val h) / 255)"
  proof (rule clamp01_unit)
    show "(0::rat) \<le> of_nat (16 * digit_val g + digit_val h) / 255" by simp
    have "(of_nat (16 * digit_val g + digit_val h) :: rat) \<le> of_nat 255"
      using le by (simp only: of_nat_le_iff)
    then show "(of_nat (16 * digit_val g + digit_val h) :: rat) / 255 \<le> 1" by simp
  qed
  finally have a: "c_a (hex_result (toLowerCase ds)) =
      Num (of_nat (16 * digit_val (ds ! 6) + digit_val (ds ! 7)) / 255)" by (simp add: ds)
  have "c_hex (hex_result (toLowerCase ds)) = CHR ''#'' # toUpperCase (take 6 ds)"
    using assms by (simp add: hex_result_def toLowerCase_def toUpperCase_def ds slice_def upper_lower_hex)
  with p a show "\<exists>c. parseColor (CHR ''#'' # ds) = Some c \<and>
                 c_a c = Num (of_nat (16 * digit_val (ds ! 6) + digit_val (ds ! 7)) / 255) \<and>
                 c_hex c = CHR ''#'' # toUpperCase (take 6 ds)" by simp
qed

theorem hex6_hex8_alpha_and_hex_witness:
  "list_all is_hex_digit ''1e1e1e'' \<and> length ''1e1e1e'' = 6 \<and>
   (\<exists>c. parseColor ''#1e1e1e'' = Some c \<and> c_a c = Num 1 \<and> c_hex c = ''#1E1E1E'') \<and>
   list_all is_hex_digit ''AbCdEf80'' \<and> length ''AbCdEf80'' = 8 \<and>
   (\<exists>c. parseColor ''#AbCdEf80'' = Some c \<and> c_a c = Num (128 / 255) \<and> c_hex c = ''#ABCDEF'')"
proof -
  have h1: "list_all is_hex_digit ''1e1e1e''"
    by (simp add: is_hex_digit_def is_lower_hex_def is_digit_def)
  have h2: "list_all is_hex_digit ''AbCdEf80''"
    by (simp add: is_hex_digit_def is_lower_hex_def is_digit_def)
  have u1: "toUpperCase ''#1e1e1e'' = ''#1E1E1E''"
    by code_simp
  have u2: "toUpperCase ''AbCdEf'' = ''ABCDEF''"
    by code_simp
  have v: "digit_val (CHR ''8'') = 8" "digit_val (CHR ''0'') = 0"
    by (simp_all add: digit_val_def is_digit_def)
  show ?thesis
    using h1 h2 hex6_hex8_alpha_and_hex [OF h1] hex6_hex8_alpha_and_hex [OF h2]
    by (simp add: u1 u2 v)
qed

subsection \<open>Case\<close>

lemma char_of_eq: "char_of (n::nat) = c \<longleftrightarrow> n mod 256 = of_char c"
  by (simp add: char_of_eq_iff take_bit_eq_mod)

lemma is_space_lower: "is_space (lower_char c) = is_space c"
  by (auto simp: is_space_def lower_char_def less_eq_char_def char_of_eq)

lemma is_dd_lower: "is_digit_or_dot (lower_char c) = is_digit_or_dot c"
  by (auto simp: is_digit_or_dot_def is_digit_def lower_char_def less_eq_char_def char_of_eq)

lemma lower_dd: "is_digit_or_dot c \<Longrightarrow> lower_char c = c"
  by (auto simp: is_digit_or_dot_def is_digit_def lower_char_def less_eq_char_def char_of_eq)

lemma lower_lower: "lower_char (lower_char c) = lower_char c"
  by (auto simp: lower_char_def less_eq_char_def)

lemma dropWhile_space_lower:
  "dropWhile is_space (map lower_char s) = map lower_char (dropWhile is_space s)"
  by (induction s) (simp_all add: is_space_lower)

lemma dropWhile_dd_lower:
  "dropWhile is_digit_or_dot (map lower_char s) = map lower_char (dropWhile is_digit_or_dot s)"
  by (induction s) (simp_all add: is_dd_lower)

lemma takeWhile_dd_lower:
  "takeWhile is_digit_or_dot (map lower_char s) = takeWhile is_digit_or_dot s"
  by (induction s) (simp_all add: is_dd_lower lower_dd)

lemma trim_lower: "trim (toLowerCase s) = toLowerCase (trim s)"
  by (simp add: trim_def toLowerCase_def dropWhile_space_lower rev_map)

lemma lit_ci_lower:
  "lit_ci p (map lower_char s) = map_option (map lower_char) (lit_ci p s)"
  by (induction p s rule: lit_ci.induct) (simp_all add: lower_lower)

lemma number_group_lower:
  "number_group (map lower_char s) =
     map_option (\<lambda>(n, r). (n, map lower_char r)) (number_group s)"
  by (simp add: number_group_def Let_def dropWhile_space_lower dropWhile_dd_lower takeWhile_dd_lower)

lemma lower_eq_paren: "map lower_char s = '')'' \<longleftrightarrow> s = '')''"
  by (cases s) (auto simp: lower_char_def less_eq_char_def char_of_eq)

lemma rgb_head_lower: "rgb_head (map lower_char v) = map_option (map lower_char) (rgb_head v)"
  by (simp add: rgb_head_def lit_ci_lower split: option.splits)

lemma comma_number_lower:
  "comma_number (map lower_char s) =
     map_option (\<lambda>(n, r). (n, map lower_char r)) (comma_number s)"
  by (simp add: comma_number_def lit_ci_lower number_group_lower split: option.splits)

lemma rgb_tail_lower: "rgb_tail (map lower_char s) = rgb_tail s"
  by (simp add: rgb_tail_def comma_number_lower lower_eq_paren split: option.splits)

lemma match_rgb_lower: "match_rgb (map lower_char v) = match_rgb v"
  by (simp add: match_rgb_def rgb_head_lower number_group_lower comma_number_lower rgb_tail_lower
        split: option.splits Option.bind_splits)

lemma lower_eq_hash: "lower_char c = CHR ''#'' \<longleftrightarrow> c = CHR ''#''"
  by (auto simp: lower_char_def less_eq_char_def char_of_eq)

lemma list_all_hex_lower: "list_all is_hex_digit (map lower_char ds) = list_all is_hex_digit ds"
  by (induction ds) (simp_all add: is_hex_lower)

lemma match_hex_lower: "match_hex (map lower_char v) = map_option (map lower_char) (match_hex v)"
  by (cases v) (simp_all add: match_hex_def list_all_hex_lower lower_eq_hash)

lemma lower_comp: "lower_char \<circ> lower_char = lower_char"
  by (rule ext) (simp add: lower_lower)

lemma lower_transparent: "map lower_char ''transparent'' = ''transparent''"
  by (simp add: lower_char_def)

lemma parseColor_lower:
  assumes "toLowerCase (trim v) \<noteq> ''transparent''"
  shows "parseColor (toLowerCase v) = parseColor v"
proof -
  have t: "trim v \<noteq> ''transparent''"
    using assms lower_transparent by (auto simp: toLowerCase_def)
  show ?thesis
    using assms t
    by (simp add: parseColor_def Let_def trim_lower)
       (simp add: toLowerCase_def match_hex_lower match_rgb_lower lower_comp split: option.splits)
qed

lemma lit_ci_first: "lit_ci (p # ps) s = Some r \<Longrightarrow> s \<noteq> [] \<and> lower_char (hd s) = p"
  by (cases s) (auto split: if_splits)

lemma keyword_other_case:
  assumes "toLowerCase (trim v) = ''transparent''" and "trim v \<noteq> ''transparent''"
  shows "parseColor v = None"
proof -
  from assms(1) obtain c cs where v: "trim v = c # cs" and c: "lower_char c = CHR ''t''"
    by (cases "trim v") (auto simp: toLowerCase_def)
  have "c \<noteq> CHR ''#''" using c by (auto simp: lower_char_def)
  then have h: "match_hex (trim v) = None" by (simp add: match_hex_def v)
  have "lit_ci ''rgb'' (trim v) = None" using c by (simp add: v)
  then have "match_rgb (trim v) = None" by (simp add: match_rgb_def rgb_head_def)
  with h assms(2) show ?thesis by (simp add: parseColor_def Let_def)
qed

text \<open>
  C10: the keyword is matched with its case, the two patterns without. The keyword
  \<open>transparent\<close>, as written, gives the transparent colour; an input that spells it in
  any other case gives \<open>null\<close>, in particular \<open>Transparent\<close> and \<open>TRANSPARENT\<close>.
  The hexadecimal pattern matches an input exactly when it matches the input in lower
  case, and so does the functional pattern, with the same numbers; two inputs that
  differ in case only give the same result unless they spell \<open>transparent\<close>.
  \<open>#ABCDEF\<close> and \<open>RGB(0, 0, 0)\<close> are parsed, to the colours of \<open>#abcdef\<close> and
  \<open>rgb(0, 0, 0)\<close>.
\<close>

theorem keyword_case_sensitive_patterns_not:
  "(\<forall>v w. toLowerCase v = toLowerCase w \<and> toLowerCase (trim v) \<noteq> ''transparent''
          \<longrightarrow> parseColor v = parseColor w) \<and>
   (\<forall>v. toLowerCase (trim v) = ''transparent'' \<and> trim v \<noteq> ''transparent''
        \<longrightarrow> parseColor v = None) \<and>
   (\<forall>v. trim v = ''transparent''
        \<longrightarrow> parseColor v =
              Some \<lparr>c_r = Num 0, c_g = Num 0, c_b = Num 0, c_a = Num 0, c_hex = ''#000000''\<rparr>) \<and>
   (\<forall>v. match_hex (toLowerCase v) = map_option toLowerCase (match_hex v)) \<and>
   (\<forall>v. match_rgb (toLowerCase v) = match_rgb v) \<and>
   parseColor ''transparent'' =
     Some \<lparr>c_r = Num 0, c_g = Num 0, c_b = Num 0, c_a = Num 0, c_hex = ''#000000''\<rparr> \<and>
   parseColor ''Transparent'' = None \<and> parseColor ''TRANSPARENT'' = None \<and>
   parseColor ''#ABCDEF'' =
     Some \<lparr>c_r = Num (171 / 255), c_g = Num (205 / 255), c_b = Num (239 / 255), c_a = Num 1,
           c_hex = ''#ABCDEF''\<rparr> \<and>
   parseColor ''#abcdef'' = parseColor ''#ABCDEF'' \<and>
   parseColor ''RGB(0, 0, 0)'' =
     Some \<lparr>c_r = Num 0, c_g = Num 0, c_b = Num 0, c_a = Num 1, c_hex = ''#000000''\<rparr> \<and>
   parseColor ''rgb(0, 0, 0)'' = parseColor ''RGB(0, 0, 0)''"
proof (intro conjI allI impI)
  fix v w
  assume a: "toLowerCase v = toLowerCase w \<and> toLowerCase (trim v) \<noteq> ''transparent''"
  then have nv: "toLowerCase (trim v) \<noteq> ''transparent''"
    and nw: "toLowerCase (trim w) \<noteq> ''transparent''"
    by (metis trim_lower)+
  have "parseColor v = parseColor (toLowerCase v)"
    using nv by (rule parseColor_lower [symmetric])
  also have "\<dots> = parseColor (toLowerCase w)" using a by simp
  also have "\<dots> = parseColor w" using nw by (rule parseColor_lower)
  finally show "parseColor v = parseColor w" .
next
  fix v
  assume "toLowerCase (trim v) = ''transparent'' \<and> trim v \<noteq> ''transparent''"
  then show "parseColor v = None" using keyword_other_case by blast
next
  fix v
  assume "trim v = ''transparent''"
  then show "parseColor v =
      Some \<lparr>c_r = Num 0, c_g = Num 0, c_b = Num 0, c_a = Num 0, c_hex = ''#000000''\<rparr>"
    by (simp add: parseColor_def)
next
  fix v
  show "match_hex (toLowerCase v) = map_option toLowerCase (match_hex v)"
    unfolding toLowerCase_def by (rule match_hex_lower)
next
  fix v
  show "match_rgb (toLowerCase v) = match_rgb v"
    unfolding toLowerCase_def by (rule match_rgb_lower)
next
  show "parseColor ''transparent'' =
     Some \<lparr>c_r = Num 0, c_g = Num 0, c_b = Num 0, c_a = Num 0, c_hex = ''#000000''\<rparr>"
    by code_simp
  show "parseColor ''Transparent'' = None" by code_simp
  show "parseColor ''TRANSPARENT'' = None" by code_simp
  show "parseColor ''#ABCDEF'' =
     Some \<lparr>c_r = Num (171 / 255), c_g = Num (205 / 255), c_b = Num (239 / 255), c_a = Num 1,
           c_hex = ''#ABCDEF''\<rparr>" by code_simp
  show "parseColor ''#abcdef'' = parseColor ''#ABCDEF''" by code_simp
  show "parseColor ''RGB(0, 0, 0)'' =
     Some \<lparr>c_r = Num 0, c_g = Num 0, c_b = Num 0, c_a = Num 1, c_hex = ''#000000''\<rparr>"
    by code_simp
  show "parseColor ''rgb(0, 0, 0)'' = parseColor ''RGB(0, 0, 0)''" by code_simp
qed

theorem keyword_case_sensitive_patterns_not_witness:
  "toLowerCase ''#AbCdEf'' = toLowerCase ''#aBcDeF'' \<and>
   toLowerCase (trim ''#AbCdEf'') \<noteq> ''transparent'' \<and>
   parseColor ''#AbCdEf'' = parseColor ''#aBcDeF'' \<and>
   toLowerCase (trim ''tRansparent'') = ''transparent'' \<and>
   trim ''tRansparent'' \<noteq> ''transparent'' \<and>
   parseColor ''tRansparent'' = None \<and>
   trim '' transparent '' = ''transparent'' \<and>
   parseColor '' transparent '' =
     Some \<lparr>c_r = Num 0, c_g = Num 0, c_b = Num 0, c_a = Num 0, c_hex = ''#000000''\<rparr>"
proof -
  have 1: "toLowerCase ''#AbCdEf'' = toLowerCase ''#aBcDeF'' \<and>
           toLowerCase (trim ''#AbCdEf'') \<noteq> ''transparent''" by code_simp
  have 2: "toLowerCase (trim ''tRansparent'') = ''transparent'' \<and>
           trim ''tRansparent'' \<noteq> ''transparent''" by code_simp
  have 3: "trim '' transparent '' = ''transparent''" by code_simp
  note fact = keyword_case_sensitive_patterns_not
  have a: "\<forall>v w. toLowerCase v = toLowerCase w \<and> toLowerCase (trim v) \<noteq> ''transparent''
          \<longrightarrow> parseColor v = parseColor w"
    by (rule fact [THEN conjunct1])
  have b: "\<forall>v. toLowerCase (trim v) = ''transparent'' \<and> trim v \<noteq> ''transparent''
        \<longrightarrow> parseColor v = None"
    by (rule fact [THEN conjunct2, THEN conjunct1])
  have c: "\<forall>v. trim v = ''transparent''
        \<longrightarrow> parseColor v =
              Some \<lparr>c_r = Num 0, c_g = Num 0, c_b = Num 0, c_a = Num 0, c_hex = ''#000000''\<rparr>"
    by (rule fact [THEN conjunct2, THEN conjunct2, THEN conjunct1])
  from a 1 have "parseColor ''#AbCdEf'' = parseColor ''#aBcDeF''" by blast
  moreover from b 2 have "parseColor ''tRansparent'' = None" by blast
  moreover from 3 have "parseColor '' transparent '' =
     Some \<lparr>c_r = Num 0, c_g = Num 0, c_b = Num 0, c_a = Num 0, c_hex = ''#000000''\<rparr>"
    by (rule c [rule_format])
  ultimately show ?thesis using 1 2 3 by (intro conjI) simp_all
qed

subsection \<open>The functional branch\<close>

text \<open>
  C1 fails on the functional branch: the components are clamped to \<open>[0,1]\<close>, the
  channel that goes into \<open>hex\<close> is not clamped to a byte. For \<open>rgb(300, 0, 0)\<close> the red
  component is 1 and \<open>hex\<close> has seven digits, spelling 300 and not 255.
\<close>

theorem parseColor_hex_not_clamped:
  "parseColor ''rgb(300, 0, 0)'' =
     Some \<lparr>c_r = Num 1, c_g = Num 0, c_b = Num 0, c_a = Num 1, c_hex = ''#12C0000''\<rparr>"
  by code_simp

lemma Number_js_two_dots: "Number_js ''1.2.3'' = NaN"
  by code_simp

lemma parseColor_None_iff:
  "parseColor v = None \<longleftrightarrow>
     trim v \<noteq> ''transparent'' \<and> match_hex (trim v) = None \<and> match_rgb (trim v) = None"
  by (auto simp: parseColor_def Let_def split: option.splits)

lemma match_hex_Some_iff:
  "match_hex v = Some ds \<longleftrightarrow>
     v = CHR ''#'' # ds \<and> list_all is_hex_digit ds \<and> length ds \<in> {3, 4, 6, 8}"
  by (cases v) (auto simp: match_hex_def)

lemma trim_blank: "list_all is_space v \<Longrightarrow> trim v = []"
proof -
  assume "list_all is_space v"
  then have "\<forall>x\<in>set v. is_space x" by (simp add: list_all_iff)
  then have "dropWhile is_space v = []" by (simp only: dropWhile_eq_Nil_conv)
  then show ?thesis by (simp only: trim_def dropWhile.simps rev.simps)
qed

lemma parseColor_blank: "list_all is_space v \<Longrightarrow> parseColor v = None"
  by (simp add: parseColor_None_iff trim_blank match_hex_def match_rgb_def rgb_head_def)

lemma parseColor_other_values:
  "parseColor [] = None"
  "parseColor ''var(--foo)'' = None"
  "parseColor ''currentColor'' = None"
  "parseColor ''transparent'' =
     Some \<lparr>c_r = Num 0, c_g = Num 0, c_b = Num 0, c_a = Num 0, c_hex = ''#000000''\<rparr>"
  by code_simp+

text \<open>
  C7 fails on the functional branch: the class \<open>[\d.]+\<close> lets through strings that are
  no numerals. \<open>rgb(1.2.3, 0, 0)\<close> is not a functional form with numeric values, yet the
  result is not \<open>null\<close>: it is a colour whose red component is NaN and whose \<open>hex\<close> is
  \<open>#NAN0000\<close>.
\<close>

theorem parseColor_accepts_malformed_number:
  "parseColor ''rgb(1.2.3, 0, 0)'' =
     Some \<lparr>c_r = NaN, c_g = Num 0, c_b = Num 0, c_a = Num 1, c_hex = ''#NAN0000''\<rparr>"
  by code_simp

section \<open>Properties of toTokenPath\<close>

lemma split_on_not_Nil: "split_on d s \<noteq> []"
  by (induction s) (auto split: list.splits)

lemma toTokenPath_resolve: "toTokenPath rawName = resolve_as_stated (trim rawName)"
proof -
  let ?parts = "split_on (CHR ''-'') (replace_prefix ''vscode-'' (replace_prefix ''--'' (trim rawName)))"
  obtain p ps where parts: "?parts = p # ps"
    using split_on_not_Nil [of "CHR ''-''"] by (cases ?parts) auto
  show ?thesis
    by (cases ps) (simp_all add: toTokenPath_def resolve_as_stated_def Let_def parts drop_Suc)
qed

text \<open>
  C3, as stated, leaves out the first step of \<open>toTokenPath\<close>: the name is trimmed. A
  name with a trailing space (a key of a JSON input may have one) resolves to the path of
  the trimmed name, not to a path whose last segment ends with the space.
\<close>

theorem toTokenPath_untrimmed_counterexample:
  "toTokenPath ''--vscode-foo '' = [''vscode'', ''foo''] \<and>
   resolve_as_stated ''--vscode-foo '' = [''vscode'', ''foo ''] \<and>
   toTokenPath ''--vscode-foo '' \<noteq> resolve_as_stated ''--vscode-foo ''"
  by code_simp

text \<open>
  C3, amended: \<open>toTokenPath\<close> trims the name, then strips one leading \<open>--\<close> and one
  leading \<open>vscode-\<close>, splits the rest on \<open>-\<close> and returns \<open>["vscode", segment]\<close> for
  one segment, else \<open>["vscode", segments[0], segments[1..].join("-")]\<close>; the three
  examples of the claim hold.
\<close>

theorem toTokenPath_trims_then_resolves:
  "toTokenPath rawName = resolve_as_stated (trim rawName) \<and>
   toTokenPath ''--vscode-editor-background'' = [''vscode'', ''editor'', ''background''] \<and>
   toTokenPath ''--vscode-foreground'' = [''vscode'', ''foreground''] \<and>
   toTokenPath ''--vscode-editor-inactiveSelection-background'' =
     [''vscode'', ''editor'', ''inactiveSelection-background'']"
proof (intro conjI)
  show "toTokenPath rawName = resolve_as_stated (trim rawName)" by (rule toTokenPath_resolve)
  show "toTokenPath ''--vscode-editor-background'' = [''vscode'', ''editor'', ''background'']"
    by code_simp
  show "toTokenPath ''--vscode-foreground'' = [''vscode'', ''foreground'']"
    by code_simp
  show "toTokenPath ''--vscode-editor-inactiveSelection-background'' =
     [''vscode'', ''editor'', ''inactiveSelection-background'']"
    by code_simp
qed

section \<open>Properties of flattenCssVarsToColorTokens\<close>

lemma update_append_fresh:
  "k \<notin> fst ` set al \<Longrightarrow> AList.update k v al = al @ [(k, v)]"
  by (induction al) auto

lemma flatten_loop_step:
  "flatten_loop (e # es) flat =
     flatten_loop es (if kept e then AList.update (fst (token_of e)) (snd (token_of e)) flat else flat)"
  by (cases e) (auto simp: kept_def token_of_def)

lemma flatten_loop_distinct:
  assumes "distinct (map fst es)" and "fst ` set es \<inter> fst ` set flat = {}"
  shows "flatten_loop es flat = flat @ map token_of (filter kept es)"
  using assms
proof (induction es arbitrary: flat)
  case Nil
  then show ?case by simp
next
  case (Cons e es)
  show ?case
  proof (cases "kept e")
    case False
    have "flatten_loop es flat = flat @ map token_of (filter kept es)"
      using Cons.IH [of flat] Cons.prems by auto
    then show ?thesis using False by (simp add: flatten_loop_step)
  next
    case True
    let ?flat' = "flat @ [token_of e]"
    have fresh: "fst e \<notin> fst ` set flat" using Cons.prems(2) by auto
    have upd: "AList.update (fst (token_of e)) (snd (token_of e)) flat = ?flat'"
      using update_append_fresh [OF fresh, of "snd (token_of e)"] by (simp add: token_of_def)
    have "fst ` set es \<inter> fst ` set ?flat' = {}"
      using Cons.prems by (auto simp: token_of_def)
    then have "flatten_loop es ?flat' = ?flat' @ map token_of (filter kept es)"
      using Cons.IH [of ?flat'] Cons.prems(1) by simp
    then show ?thesis using True by (simp add: flatten_loop_step upd)
  qed
qed

lemma flatten_distinct:
  "distinct (map fst cssVars) \<Longrightarrow>
     flattenCssVarsToColorTokens cssVars = map token_of (filter kept cssVars)"
  by (simp add: flattenCssVarsToColorTokens_def flatten_loop_distinct)

section \<open>Properties of the store\<close>

lemma objects_put [simp]: "objects (put a obj s) b = (if b = a then obj else objects s b)"
  by (simp add: objects_def put_def update_conv')

lemma next_free_put [simp]: "next_free (put a obj s) = next_free s"
  by (simp add: put_def)

lemma objects_next_free [simp]: "objects (s\<lparr>next_free := n\<rparr>) = objects s"
  by (rule ext) (simp add: objects_def)

section \<open>Properties of the union\<close>

lemma set_update_subset: "set (AList.update k v al) \<subseteq> insert (k, v) (set al)"
  by (induction al) auto

lemma get_member_cases:
  obtains (own) v where "map_of props k = Some v" "get_member props k = Inr (Some v)"
  | (undefined) "map_of props k = None" "get_member props k = Inr None"
  | (inherited) "map_of props k = None" "get_member props k = Inl Outside_model"
  by (cases "map_of props k"; cases "k \<in> set Object_prototype_names") (auto simp: get_member_def)

lemma fill_loop_result:
  assumes "fill_loop fl ks (mis0, uf0) = Inr (mis, uf)"
  shows "mis = mis0 @ filter (\<lambda>k. map_of fl k = None) ks \<and>
         (\<forall>k. map_of uf k =
                (if k \<in> set ks then Some (case map_of fl k of Some t \<Rightarrow> t | None \<Rightarrow> TT)
                 else map_of uf0 k))"
  using assms
proof (induction ks arbitrary: mis0 uf0)
  case Nil
  then show ?case by simp
next
  case (Cons k ks)
  show ?case
  proof (cases rule: get_member_cases [of fl k])
    case (own v)
    with Cons.prems have "fill_loop fl ks (mis0, AList.update k v uf0) = Inr (mis, uf)" by simp
    from Cons.IH [OF this] own(1) show ?thesis by (auto simp: update_conv')
  next
    case undefined
    with Cons.prems have "fill_loop fl ks (mis0 @ [k], AList.update k TT uf0) = Inr (mis, uf)" by simp
    from Cons.IH [OF this] undefined(1) show ?thesis by (auto simp: update_conv')
  next
    case inherited
    with Cons.prems show ?thesis by simp
  qed
qed

lemma union_item_entry:
  assumes "union_item s unionKeys it = Inr (s', row, e)"
  shows "missing e = filter (\<lambda>k. map_of (it_flat it) k = None) unionKeys \<and>
         present e = int (length unionKeys) - int (length (missing e)) \<and>
         row_name row = it_name it \<and>
         (\<forall>k. map_of (unionFlat row) k =
                (if k \<in> set unionKeys
                 then Some (case map_of (it_flat it) k of Some t \<Rightarrow> t | None \<Rightarrow> TT)
                 else None))"
proof -
  from assms obtain mis uf tree where
    f: "fill_loop (it_flat it) unionKeys ([], []) = Inr (mis, uf)" and
    e: "e = \<lparr>missing = mis, present = int (length unionKeys) - int (length mis)\<rparr>" and
    r: "row = \<lparr>row_name = it_name it, unionFlat = uf, unionNested = tree\<rparr>"
    by (auto simp: union_item_def split: sum.splits prod.splits)
  from fill_loop_result [OF f] show ?thesis by (simp add: e r)
qed

lemma union_item_adds_up:
  assumes "union_item s unionKeys it = Inr (s', row, e)"
  shows "adds_up (length unionKeys) e"
proof -
  from union_item_entry [OF assms]
  have m: "missing e = filter (\<lambda>k. map_of (it_flat it) k = None) unionKeys"
    and p: "present e = int (length unionKeys) - int (length (missing e))" by simp_all
  have "length (missing e) \<le> length unionKeys" unfolding m by (rule length_filter_le)
  with p show ?thesis by (simp add: adds_up_def)
qed

lemma union_loop_adds_up:
  assumes "union_loop s unionKeys items rep rows = Inr (s', rep', rows')"
    and "list_all (\<lambda>(n, e). adds_up (length unionKeys) e) rep"
  shows "list_all (\<lambda>(n, e). adds_up (length unionKeys) e) rep'"
  using assms
proof (induction items arbitrary: s rep rows)
  case Nil
  then show ?case by simp
next
  case (Cons it items)
  from Cons.prems(1) obtain s1 row e where
    u: "union_item s unionKeys it = Inr (s1, row, e)" and
    l: "union_loop s1 unionKeys items (AList.update (it_name it) e rep) (rows @ [row]) = Inr (s', rep', rows')"
    by (auto split: sum.splits)
  have "list_all (\<lambda>(n, e). adds_up (length unionKeys) e) (AList.update (it_name it) e rep)"
    using union_item_adds_up [OF u] Cons.prems(2) set_update_subset [of "it_name it" e rep]
    by (auto simp: list_all_iff)
  from Cons.IH [OF l this] show ?case .
qed

text \<open>
  C4: whenever the union block runs (the union is enabled and there are at least two
  items) and returns, every entry of the report satisfies
  \<open>present + missing.length = totalUnionKeys\<close>.
\<close>

theorem report_counts_add_up:
  assumes "union_block unionEnabled s items = Some (Inr (s', res))"
  shows "2 \<le> length items \<and>
         list_all (\<lambda>(n, e). present e + int (length (missing e)) = int (totalUnionKeys res))
           (report res)"
proof -
  from assms have en: "unionEnabled \<and> 2 \<le> length items"
    by (auto simp: union_block_def split: if_splits)
  with assms obtain rep rows where
    l: "union_loop s (unionKeys_of items) items [] [] = Inr (s', rep, rows)" and
    r: "res = \<lparr>totalUnionKeys = length (unionKeys_of items), report = rep, union_rows = rows\<rparr>"
    by (auto simp: union_block_def Let_def split: sum.splits)
  from union_loop_adds_up [OF l]
  have "list_all (\<lambda>(n, e). adds_up (length (unionKeys_of items)) e) rep" by simp
  then show ?thesis using en by (auto simp: r adds_up_def list_all_iff)
qed

lemma unionKeys_sorted: "sorted (unionKeys_of items) \<and> distinct (unionKeys_of items) \<and>
   set (unionKeys_of items) = (\<Union>it \<in> set items. fst ` set (it_flat it))"
  by (auto simp: unionKeys_of_def)

lemma case_sum_InrE:
  assumes "case_sum (\<lambda>e. False) Q x"
  obtains p where "x = Inr p" "Q p"
  using assms by (cases x) simp_all

lemma case_option_SomeE:
  assumes "case_option False Q x"
  obtains p where "x = Some p" "Q p"
  using assms by (cases x) simp_all

lemma case_prod_pairE:
  assumes "case_prod Q p"
  obtains a b where "p = (a, b)" "Q a b"
  using assms by (cases p) simp_all

theorem report_counts_add_up_witness:
  "\<exists>s items s' res.
     convert_inputs initial_store
       [(''A'', [(''--vscode-foreground'', ''#cccccc'')]),
        (''B'', [(''--vscode-foreground'', ''#cccccc''),
                 (''--vscode-editor-background'', ''#1e1e1e'')])] = Inr (s, items) \<and>
     union_block True s items = Some (Inr (s', res)) \<and>
     2 \<le> length items \<and>
     list_all (\<lambda>(n, e). present e + int (length (missing e)) = int (totalUnionKeys res))
       (report res) \<and>
     totalUnionKeys res = 2 \<and>
     report res = [(''A'', \<lparr>missing = [''--vscode-editor-background''], present = 1\<rparr>),
                   (''B'', \<lparr>missing = [], present = 2\<rparr>)]"
proof -
  let ?inputs = "[(''A'', [(''--vscode-foreground'', ''#cccccc'')]),
        (''B'', [(''--vscode-foreground'', ''#cccccc''),
                 (''--vscode-editor-background'', ''#1e1e1e'')])]"
  have "case convert_inputs initial_store ?inputs of
          Inl e \<Rightarrow> False
        | Inr (s, items) \<Rightarrow>
            (case union_block True s items of
               None \<Rightarrow> False
             | Some r \<Rightarrow>
                 (case r of
                    Inl e \<Rightarrow> False
                  | Inr (s', res) \<Rightarrow>
                      totalUnionKeys res = 2 \<and>
                      report res =
                        [(''A'', \<lparr>missing = [''--vscode-editor-background''], present = 1\<rparr>),
                         (''B'', \<lparr>missing = [], present = 2\<rparr>)]))"
    by code_simp
  then obtain s items s' res where
    c: "convert_inputs initial_store ?inputs = Inr (s, items)" and
    u: "union_block True s items = Some (Inr (s', res))" and
    r: "totalUnionKeys res = 2 \<and>
        report res = [(''A'', \<lparr>missing = [''--vscode-editor-background''], present = 1\<rparr>),
                      (''B'', \<lparr>missing = [], present = 2\<rparr>)]"
    by (elim case_sum_InrE case_prod_pairE case_option_SomeE) blast
  from report_counts_add_up [OF u] c u r show ?thesis by blast
qed

text \<open>
  C5 holds for the keys and for the choice of the object: \<open>unionKeys\<close> is the sorted
  union (\<open>unionKeys_sorted\<close>), a source keeps its own token, a missing key gets the
  object \<open>TRANSPARENT_TOKEN\<close> and is listed in order (\<open>union_item_entry\<close>). It fails
  for the content of the placeholder. \<open>TRANSPARENT_TOKEN\<close> is one object, and
  \<open>setNested\<close> writes into it when a missing key resolves to a path that is a prefix
  of the path of a later key. Source A has \<open>--vscode-x-$value\<close> only, source B has
  \<open>--vscode-x\<close> and \<open>--vscode-y\<close>. In the union tree of A the placeholder stands
  at \<open>vscode.x\<close>, the token of \<open>--vscode-x-$value\<close> is then assigned to its property
  \<open>$value\<close>, and the placeholder of the missing \<open>--vscode-y\<close> is the same object:
  under \<open>$value\<close> it holds the token of A (address 1), not a colour with hex
  \<open>#000000\<close> and alpha 0.
\<close>

theorem placeholder_overwritten_through_shared_object:
  "case main True [(''A'', [(''--vscode-x-$value'', ''#ffffff'')]),
                   (''B'', [(''--vscode-x'', ''#000000''), (''--vscode-y'', ''#111111'')])] of
     Inr (items, Some (s, res)) \<Rightarrow>
       map_of (it_flat (items ! 0)) ''--vscode-x-$value'' = Some 1 \<and>
       map_of (report res) ''A'' =
         Some \<lparr>missing = [''--vscode-x'', ''--vscode-y''], present = 1\<rparr> \<and>
       map_of (unionFlat (union_rows res ! 0)) ''--vscode-y'' = Some TT \<and>
       objects s TT = [(''$type'', Str ''color''), (''$value'', Ref 1)] \<and>
       lookup_path s (Ref (unionNested (union_rows res ! 0))) [''vscode'', ''y'', ''$value''] =
         Some (Ref 1)
   | _ \<Rightarrow> False"
  by code_simp

section \<open>Properties of setNested and nestFlatTokens\<close>




lemma list_all_update:
  "list_all P al \<Longrightarrow> P (k, v) \<Longrightarrow> list_all P (AList.update k v al)"
  by (induction al) auto




text \<open>What lies under \<open>vscode.g\<close>.\<close>

lemma lookup_group_empty:
  "objects s out = [] \<Longrightarrow> lookup_path s (Ref out) [''vscode'', g] = None"
  by simp

lemma lookup_group_rooted:
  "objects s out = [(''vscode'', Ref vs)] \<Longrightarrow>
   lookup_path s (Ref out) [''vscode'', g] = map_of (objects s vs) g"
  by (simp split: option.splits)








lemma lookup_step:
  "lookup_path s v (k # ks) =
     (case v of
        Ref a \<Rightarrow> (case map_of (objects s a) k of None \<Rightarrow> None | Some w \<Rightarrow> lookup_path s w ks)
      | _ \<Rightarrow> None)"
  by (cases v) simp_all


























text \<open>
  When the last segment of the later path is \<open>$value\<close>, the assignment replaces the
  colour of the earlier token by the later token.
\<close>

lemma later_entry_replaces_value_of_earlier_token:
  "case store_tokens (flattenCssVarsToColorTokens
          [(''--vscode-foo'', ''#000000''), (''--vscode-foo-$value'', ''#ffffff'')]) initial_store of
     (flatMap, s1) \<Rightarrow>
       (case nestFlatTokens s1 flatMap None of
          Inl e \<Rightarrow> False
        | Inr (out, s') \<Rightarrow>
            flatMap = [(''--vscode-foo'', 1), (''--vscode-foo-$value'', 2)] \<and>
            lookup_path s' (Ref out) [''vscode'', ''foo''] = Some (Ref 1) \<and>
            objects s' 1 = [(''$type'', Str ''color''), (''$value'', Ref 2)])"
  by code_simp

section \<open>Names in flat token sets and trees\<close>

lemma flatten_loop_keys:
  "list_all (\<lambda>(k, t). startsWith k ''--vscode-'') flat \<Longrightarrow>
   list_all (\<lambda>(k, t). startsWith k ''--vscode-'') (flatten_loop es flat)"
proof (induction es arbitrary: flat)
  case Nil
  then show ?case by simp
next
  case (Cons e es)
  have "list_all (\<lambda>(k, t). startsWith k ''--vscode-'')
          (if kept e then AList.update (fst (token_of e)) (snd (token_of e)) flat else flat)"
    using Cons.prems set_update_subset [of "fst (token_of e)" "snd (token_of e)" flat]
    by (auto simp: list_all_iff kept_def token_of_def)
  from Cons.IH [OF this] show ?case by (simp only: flatten_loop_step)
qed

lemma flatten_keys:
  "list_all (\<lambda>(k, t). startsWith k ''--vscode-'') (flattenCssVarsToColorTokens cssVars)"
  by (simp add: flattenCssVarsToColorTokens_def flatten_loop_keys)

lemma store_tokens_keys: "map fst (fst (store_tokens fl s)) = map fst fl"
proof (induction fl arbitrary: s)
  case Nil
  then show ?case by simp
next
  case (Cons e fl)
  obtain k t where e: "e = (k, t)" by (cases e)
  show ?case using Cons.IH [of "snd (alloc t s)"] by (simp add: e split_def Let_def)
qed

lemma convert_inputs_keys:
  "convert_inputs s inputs = Inr (s', items) \<Longrightarrow>
   list_all (\<lambda>it. list_all (\<lambda>k. startsWith k ''--vscode-'') (map fst (it_flat it))) items"
proof (induction inputs arbitrary: s s' items)
  case Nil
  then show ?case by simp
next
  case (Cons inp inputs)
  obtain n vars where inp: "inp = (n, vars)" by (cases inp)
  obtain fl s1 where st: "store_tokens (flattenCssVarsToColorTokens vars) s = (fl, s1)"
    by (cases "store_tokens (flattenCssVarsToColorTokens vars) s")
  from Cons.prems obtain tree s2 s3 items' where
    r: "convert_inputs s2 inputs = Inr (s3, items')" and
    i: "items = \<lparr>it_name = n, it_flat = fl, it_nested = tree\<rparr> # items'"
    by (auto simp: inp st split: sum.splits)
  have "map fst fl = map fst (flattenCssVarsToColorTokens vars)"
    using store_tokens_keys [of "flattenCssVarsToColorTokens vars" s] st by simp
  moreover have "list_all (\<lambda>k. startsWith k ''--vscode-'') (map fst (flattenCssVarsToColorTokens vars))"
    using flatten_keys [of vars] by (auto simp: list_all_iff)
  ultimately show ?case using Cons.IH [OF r] by (simp add: i)
qed

lemma unionKeys_prefixed:
  assumes "list_all (\<lambda>it. list_all (\<lambda>k. startsWith k ''--vscode-'') (map fst (it_flat it))) items"
  shows "list_all (\<lambda>k. startsWith k ''--vscode-'') (unionKeys_of items)"
  using assms unionKeys_sorted [of items] by (auto simp: list_all_iff)

lemma flatten_loop_filter:
  "flatten_loop (filter (\<lambda>(k, v). startsWith k ''--vscode-'') es) flat = flatten_loop es flat"
  by (induction es arbitrary: flat) (auto split: option.splits)

lemma convert_inputs_filter:
  "convert_inputs s (map (\<lambda>(n, vars). (n, filter (\<lambda>(k, v). startsWith k ''--vscode-'') vars)) inputs) =
   convert_inputs s inputs"
proof (induction inputs arbitrary: s)
  case Nil
  then show ?case by simp
next
  case (Cons inp inputs)
  obtain n vars where inp: "inp = (n, vars)" by (cases inp)
  show ?case
    by (simp add: inp flattenCssVarsToColorTokens_def flatten_loop_filter Cons.IH
          split: prod.splits sum.splits)
qed

lemma main_filter:
  "main u (map (\<lambda>(n, vars). (n, filter (\<lambda>(k, v). startsWith k ''--vscode-'') vars)) inputs) =
   main u inputs"
  by (simp add: main_def convert_inputs_filter)

lemma plain_empty: "plain_node []"
  by (simp add: plain_node_def)

lemma plain_update: "plain_node obj \<Longrightarrow> plain_node (AList.update k (Ref a) obj)"
  unfolding plain_node_def by (rule list_all_update) simp_all

lemma set_member_plain:
  assumes "set_member s cur k (Ref x) = Inr s'" and "\<forall>a. a \<notin> T \<longrightarrow> plain_node (objects s a)"
  shows "\<forall>a. a \<notin> T \<longrightarrow> plain_node (objects s' a)"
  using assms by (auto simp: set_member_def plain_update split: if_splits)

lemma alloc_plain:
  assumes "alloc [] s = (n, s1)" and "\<forall>a. a \<notin> T \<longrightarrow> plain_node (objects s a)"
  shows "\<forall>a. a \<notin> T \<longrightarrow> plain_node (objects s1 a)"
  using assms by (auto simp: alloc_def plain_empty)

lemma setNested_plain:
  "setNested s cur p v = Inr s' \<Longrightarrow> v = Ref t \<Longrightarrow> \<forall>a. a \<notin> T \<longrightarrow> plain_node (objects s a) \<Longrightarrow>
   \<forall>a. a \<notin> T \<longrightarrow> plain_node (objects s' a)"
proof (induction s cur p v arbitrary: s' rule: setNested.induct)
  case (1 s cur v)
  then show ?case using set_member_plain by auto
next
  case (2 s cur k v)
  then show ?case using set_member_plain by auto
next
  case (3 s cur k k' ks v)
  show ?case
  proof (cases rule: get_member_cases [of "objects s cur" k])
    case (own w)
    then show ?thesis
    proof (cases w)
      case (Ref a)
      with own 3 show ?thesis by simp
    qed (use own 3 in simp_all)
  next
    case undefined
    obtain n s1 where al: "alloc [] s = (n, s1)" by (cases "alloc [] s")
    from 3(3) undefined al obtain s2 where
      sm: "set_member s1 cur k (Ref n) = Inr s2" and
      rec: "setNested s2 n (k' # ks) v = Inr s'"
      by (auto split: sum.splits)
    have "\<forall>a. a \<notin> T \<longrightarrow> plain_node (objects s2 a)"
      using set_member_plain [OF sm] alloc_plain [OF al] 3(5) by blast
    from "3.IH"(1) [OF undefined(2) refl refl al [symmetric] sm rec 3(4) this] show ?thesis .
  next
    case inherited
    with 3 show ?thesis by simp
  qed
qed


lemma nest_loop_plain:
  "nest_loop s out flatMap ks = Inr s' \<Longrightarrow> \<forall>a. a \<notin> T \<longrightarrow> plain_node (objects s a) \<Longrightarrow>
   \<forall>a. a \<notin> T \<longrightarrow> plain_node (objects s' a)"
proof (induction ks arbitrary: s)
  case Nil
  then show ?case by simp
next
  case (Cons k ks)
  show ?case
  proof (cases rule: get_member_cases [of flatMap k])
    case (own t)
    with Cons.prems(1) obtain s1 where
      sn: "setNested s out (toTokenPath k) (Ref t) = Inr s1" and
      rec: "nest_loop s1 out flatMap ks = Inr s'"
      by (auto split: sum.splits)
    from setNested_plain [OF sn refl Cons.prems(2)] Cons.IH [OF rec] show ?thesis by blast
  next
    case undefined
    with Cons show ?thesis by simp
  next
    case inherited
    with Cons show ?thesis by simp
  qed
qed

lemma nestFlatTokens_plain:
  assumes "nestFlatTokens s flatMap ok = Inr (out, s')"
    and "\<forall>a. a \<notin> T \<longrightarrow> plain_node (objects s a)"
  shows "\<forall>a. a \<notin> T \<longrightarrow> plain_node (objects s' a)"
proof -
  obtain n s0 where al: "alloc [] s = (n, s0)" by (cases "alloc [] s")
  from assms(1) al have
    "nest_loop s0 n flatMap (case ok of None \<Rightarrow> map fst flatMap | Some ks \<Rightarrow> ks) = Inr s'"
    by (auto simp: nestFlatTokens_def split: sum.splits)
  from nest_loop_plain [OF this alloc_plain [OF al assms(2)]] show ?thesis .
qed

lemma store_tokens_plain:
  "store_tokens fl s = (fm, s1) \<Longrightarrow> \<forall>a. a \<notin> T \<longrightarrow> plain_node (objects s a) \<Longrightarrow>
   \<forall>a. a \<notin> T \<union> snd ` set fm \<longrightarrow> plain_node (objects s1 a)"
proof (induction fl arbitrary: s fm T s1)
  case Nil
  then show ?case by simp
next
  case (Cons e fl)
  obtain k t where e: "e = (k, t)" by (cases e)
  obtain a s0 where al: "alloc t s = (a, s0)" by (cases "alloc t s")
  obtain rs s2 where r: "store_tokens fl s0 = (rs, s2)" by (cases "store_tokens fl s0")
  from Cons.prems(1) have fm: "fm = (k, a) # rs" and s1: "s1 = s2"
    by (simp_all add: e al r)
  have "\<forall>b. b \<notin> insert a T \<longrightarrow> plain_node (objects s0 b)"
    using al Cons.prems(2) by (auto simp: alloc_def)
  from Cons.IH [OF r this] show ?case by (simp add: fm s1)
qed

lemma convert_inputs_plain:
  "convert_inputs s inputs = Inr (s', items) \<Longrightarrow> \<forall>a. a \<notin> T \<longrightarrow> plain_node (objects s a) \<Longrightarrow>
   \<forall>a. a \<notin> T \<union> (\<Union>it\<in>set items. snd ` set (it_flat it)) \<longrightarrow> plain_node (objects s' a)"
proof (induction inputs arbitrary: s items T)
  case Nil
  then show ?case by simp
next
  case (Cons inp inputs)
  obtain n vars where inp: "inp = (n, vars)" by (cases inp)
  obtain fl s1 where st: "store_tokens (flattenCssVarsToColorTokens vars) s = (fl, s1)"
    by (cases "store_tokens (flattenCssVarsToColorTokens vars) s")
  from Cons.prems(1) obtain tree s2 items' where
    nf: "nestFlatTokens s1 fl None = Inr (tree, s2)" and
    r: "convert_inputs s2 inputs = Inr (s', items')" and
    i: "items = \<lparr>it_name = n, it_flat = fl, it_nested = tree\<rparr> # items'"
    by (auto simp: inp st split: sum.splits)
  from nestFlatTokens_plain [OF nf store_tokens_plain [OF st Cons.prems(2)]]
  have "\<forall>a. a \<notin> T \<union> snd ` set fl \<longrightarrow> plain_node (objects s2 a)" .
  from Cons.IH [OF r this] show ?case by (simp add: i Un_assoc)
qed

lemma union_loop_plain:
  "union_loop s uk items rep rows = Inr (s', rep', rows') \<Longrightarrow>
   \<forall>a. a \<notin> T \<longrightarrow> plain_node (objects s a) \<Longrightarrow>
   \<forall>a. a \<notin> T \<longrightarrow> plain_node (objects s' a)"
proof (induction items arbitrary: s rep rows)
  case Nil
  then show ?case by simp
next
  case (Cons it items)
  from Cons.prems(1) obtain s1 row e where
    u: "union_item s uk it = Inr (s1, row, e)" and
    r: "union_loop s1 uk items (AList.update (it_name it) e rep) (rows @ [row]) = Inr (s', rep', rows')"
    by (auto split: sum.splits)
  from u obtain uf tree where "nestFlatTokens s uf (Some uk) = Inr (tree, s1)"
    by (auto simp: union_item_def split: sum.splits prod.splits)
  from Cons.IH [OF r nestFlatTokens_plain [OF this Cons.prems(2)]] show ?case .
qed

lemma initial_plain: "\<forall>a. a \<notin> {TT} \<longrightarrow> plain_node (objects initial_store a)"
  by (simp add: initial_store_def objects_def plain_empty)

lemma main_plain:
  assumes "main u inputs = Inr (items, Some (s, res))"
  shows "plain_node (objects s a) \<or> a = TT \<or> (\<exists>it k. it \<in> set items \<and> (k, a) \<in> set (it_flat it))"
proof -
  from assms obtain s0 where
    c: "convert_inputs initial_store inputs = Inr (s0, items)" and
    b: "union_block u s0 items = Some (Inr (s, res))"
    by (auto simp: main_def split: sum.splits option.splits)
  from b obtain rep rows where "union_loop s0 (unionKeys_of items) items [] [] = Inr (s, rep, rows)"
    by (auto simp: union_block_def Let_def split: if_splits sum.splits)
  from union_loop_plain [OF this convert_inputs_plain [OF c initial_plain]]
  show ?thesis by force
qed

lemma convert_plain:
  assumes "convert_inputs initial_store inputs = Inr (s, items)"
  shows "plain_node (objects s a) \<or> a = TT \<or> (\<exists>it k. it \<in> set items \<and> (k, a) \<in> set (it_flat it))"
  using convert_inputs_plain [OF assms initial_plain] by force

lemma flat_names_prefixed:
  assumes "convert_inputs s0 inputs = Inr (s, items)"
    and "it \<in> set items" and "(k, a) \<in> set (it_flat it)"
  shows "startsWith k ''--vscode-''"
  using convert_inputs_keys [OF assms(1)] assms(2,3) by (force simp: list_all_iff)

lemma known_objectI:
  assumes "plain_node (objects s a) \<or> a = TT \<or> (\<exists>it k. it \<in> set items \<and> (k, a) \<in> set (it_flat it))"
    and "convert_inputs s0 inputs = Inr (s1, items)"
  shows "known_object s items a"
proof -
  have "list_ex (\<lambda>it. list_ex (\<lambda>(k, t). t = a \<and> startsWith k ''--vscode-'') (it_flat it)) items"
    if "it \<in> set items" "(k, a) \<in> set (it_flat it)" for it k
    using that flat_names_prefixed [OF assms(2) that] by (force simp: list_ex_iff)
  with assms(1) show ?thesis unfolding known_object_def by blast
qed

text \<open>
  C6: the flat token set holds exactly the entries whose name, as given, starts with
  \<open>--vscode-\<close> and whose value \<open>parseColor\<close> accepts, each with the token built from
  the parsed colour, in the order of the input; every other entry is left out, and the
  extractor has no failing case. So every name in the flat map of an item starts with
  \<open>--vscode-\<close>, and so does every union key: no other name reaches \<open>nestFlatTokens\<close>.
  The whole outcome of \<open>main\<close>, with every flat token set, every tree and the store they
  lie in, is the same when the variables that do not start with \<open>--vscode-\<close> are taken
  out of the inputs. And every object found under any path in a tree is a plain node, the
  placeholder \<open>TRANSPARENT_TOKEN\<close>, or the token of a name in the flat token set of an
  item, a name that starts with \<open>--vscode-\<close>. This holds for the tree of an item in the
  store after step 1 (for the inputs up to this item it is the store in which the tree
  is written), for a union tree in the store after any number of rows of the union
  (after its own row it is the store in which the tree is written), and for all trees in
  the store at the end of \<open>main\<close>.
\<close>

theorem flatten_keeps_exactly_vscode_colors:
  assumes "distinct (map fst cssVars)"
  shows "((k, t) \<in> set (flattenCssVarsToColorTokens cssVars) \<longleftrightarrow>
            startsWith k ''--vscode-'' \<and>
            (\<exists>v c. (k, v) \<in> set cssVars \<and> parseColor v = Some c \<and>
                   t = makeDtcgColorTokenFromParsedColor c)) \<and>
         map fst (flattenCssVarsToColorTokens cssVars) =
           filter (\<lambda>k. startsWith k ''--vscode-'' \<and> parseColor (the (map_of cssVars k)) \<noteq> None)
             (map fst cssVars) \<and>
         (\<forall>s inputs s' items.
            convert_inputs s inputs = Inr (s', items) \<longrightarrow>
              list_all (\<lambda>it. list_all (\<lambda>k. startsWith k ''--vscode-'') (map fst (it_flat it))) items \<and>
              list_all (\<lambda>k. startsWith k ''--vscode-'') (unionKeys_of items)) \<and>
         (\<forall>u inputs.
            main u (map (\<lambda>(n, vars). (n, filter (\<lambda>(k, v). startsWith k ''--vscode-'') vars)) inputs) =
            main u inputs) \<and>
         (\<forall>inputs s items it p a.
            convert_inputs initial_store inputs = Inr (s, items) \<and> it \<in> set items \<and>
            lookup_path s (Ref (it_nested it)) p = Some (Ref a) \<longrightarrow>
              known_object s items a) \<and>
         (\<forall>inputs s0 items n s rep rows row p a.
            convert_inputs initial_store inputs = Inr (s0, items) \<and>
            union_loop s0 (unionKeys_of items) (take n items) [] [] = Inr (s, rep, rows) \<and>
            row \<in> set rows \<and>
            lookup_path s (Ref (unionNested row)) p = Some (Ref a) \<longrightarrow>
              known_object s items a) \<and>
         (\<forall>u inputs items s res r p a.
            main u inputs = Inr (items, Some (s, res)) \<and>
            (r \<in> it_nested ` set items \<or> r \<in> unionNested ` set (union_rows res)) \<and>
            lookup_path s (Ref r) p = Some (Ref a) \<longrightarrow>
              known_object s items a)"
proof (intro conjI)
  show "(k, t) \<in> set (flattenCssVarsToColorTokens cssVars) \<longleftrightarrow>
            startsWith k ''--vscode-'' \<and>
            (\<exists>v c. (k, v) \<in> set cssVars \<and> parseColor v = Some c \<and>
                   t = makeDtcgColorTokenFromParsedColor c)"
    unfolding flatten_distinct [OF assms]
    by (force simp: kept_def token_of_def image_iff)
next
  have "map fst (map token_of (filter kept es)) =
          filter (\<lambda>k. startsWith k ''--vscode-'' \<and> parseColor (the (map_of es k)) \<noteq> None) (map fst es)"
    if "distinct (map fst es)" for es
    using that
  proof (induction es)
    case Nil then show ?case by simp
  next
    case (Cons e es)
    have "filter (\<lambda>k. startsWith k ''--vscode-'' \<and> parseColor (the (map_of (e # es) k)) \<noteq> None) (map fst es)
          = filter (\<lambda>k. startsWith k ''--vscode-'' \<and> parseColor (the (map_of es k)) \<noteq> None) (map fst es)"
    proof (rule filter_cong [OF refl])
      fix k
      assume "k \<in> set (map fst es)"
      moreover have "fst e \<notin> set (map fst es)" using Cons.prems by simp
      ultimately have "k \<noteq> fst e" by blast
      then have "map_of (e # es) k = map_of es k" by (cases e) auto
      then show "(startsWith k ''--vscode-'' \<and> parseColor (the (map_of (e # es) k)) \<noteq> None) =
                 (startsWith k ''--vscode-'' \<and> parseColor (the (map_of es k)) \<noteq> None)"
        by simp
    qed
    moreover have "map_of (e # es) (fst e) = Some (snd e)" by (cases e) simp
    ultimately show ?case using Cons by (simp add: kept_def token_of_def)
  qed
  then show "map fst (flattenCssVarsToColorTokens cssVars) =
           filter (\<lambda>k. startsWith k ''--vscode-'' \<and> parseColor (the (map_of cssVars k)) \<noteq> None)
             (map fst cssVars)"
    using assms by (simp add: flatten_distinct)
next
  show "\<forall>s inputs s' items.
            convert_inputs s inputs = Inr (s', items) \<longrightarrow>
              list_all (\<lambda>it. list_all (\<lambda>k. startsWith k ''--vscode-'') (map fst (it_flat it))) items \<and>
              list_all (\<lambda>k. startsWith k ''--vscode-'') (unionKeys_of items)"
    using convert_inputs_keys unionKeys_prefixed by blast
next
  show "\<forall>u inputs.
            main u (map (\<lambda>(n, vars). (n, filter (\<lambda>(k, v). startsWith k ''--vscode-'') vars)) inputs) =
            main u inputs"
    by (simp add: main_filter)
next
  show "\<forall>inputs s items it p a.
            convert_inputs initial_store inputs = Inr (s, items) \<and> it \<in> set items \<and>
            lookup_path s (Ref (it_nested it)) p = Some (Ref a) \<longrightarrow>
              known_object s items a"
  proof (intro allI impI)
    fix inputs s items it p a
    assume a: "convert_inputs initial_store inputs = Inr (s, items) \<and> it \<in> set items \<and>
               lookup_path s (Ref (it_nested it)) p = Some (Ref a)"
    then have c: "convert_inputs initial_store inputs = Inr (s, items)" by (rule conjunct1)
    from convert_plain [OF c] c show "known_object s items a" by (rule known_objectI)
  qed
next
  show "\<forall>inputs s0 items n s rep rows row p a.
            convert_inputs initial_store inputs = Inr (s0, items) \<and>
            union_loop s0 (unionKeys_of items) (take n items) [] [] = Inr (s, rep, rows) \<and>
            row \<in> set rows \<and>
            lookup_path s (Ref (unionNested row)) p = Some (Ref a) \<longrightarrow>
              known_object s items a"
  proof (intro allI impI)
    fix inputs s0 items n s rep rows row p a
    assume a: "convert_inputs initial_store inputs = Inr (s0, items) \<and>
            union_loop s0 (unionKeys_of items) (take n items) [] [] = Inr (s, rep, rows) \<and>
            row \<in> set rows \<and>
            lookup_path s (Ref (unionNested row)) p = Some (Ref a)"
    then have c: "convert_inputs initial_store inputs = Inr (s0, items)" by (rule conjunct1)
    from a have u: "union_loop s0 (unionKeys_of items) (take n items) [] [] = Inr (s, rep, rows)"
      by (rule conjunct2 [THEN conjunct1])
    from union_loop_plain [OF u convert_inputs_plain [OF c initial_plain]]
    have "plain_node (objects s a) \<or> a = TT \<or>
          (\<exists>it k. it \<in> set items \<and> (k, a) \<in> set (it_flat it))" by force
    from this c show "known_object s items a" by (rule known_objectI)
  qed
next
  show "\<forall>u inputs items s res r p a.
            main u inputs = Inr (items, Some (s, res)) \<and>
            (r \<in> it_nested ` set items \<or> r \<in> unionNested ` set (union_rows res)) \<and>
            lookup_path s (Ref r) p = Some (Ref a) \<longrightarrow>
              known_object s items a"
  proof (intro allI impI)
    fix u inputs items s res r p a
    assume a: "main u inputs = Inr (items, Some (s, res)) \<and>
            (r \<in> it_nested ` set items \<or> r \<in> unionNested ` set (union_rows res)) \<and>
            lookup_path s (Ref r) p = Some (Ref a)"
    then have m: "main u inputs = Inr (items, Some (s, res))" by (rule conjunct1)
    then obtain s0 where c: "convert_inputs initial_store inputs = Inr (s0, items)"
      by (auto simp: main_def split: sum.splits option.splits)
    from main_plain [OF m] c show "known_object s items a" by (rule known_objectI)
  qed
qed

theorem flatten_keeps_exactly_vscode_colors_witness:
  "distinct (map fst [(''--vscode-a'', ''#fff''), (''--b'', ''#fff''), (''--vscode-c'', ''var(--x)'')]) \<and>
   map fst (flattenCssVarsToColorTokens
              [(''--vscode-a'', ''#fff''), (''--b'', ''#fff''), (''--vscode-c'', ''var(--x)'')]) =
     [''--vscode-a''] \<and>
   (\<exists>s' items.
      convert_inputs initial_store
        [(''A'', [(''--vscode-a'', ''#fff''), (''--b'', ''#fff'')]),
         (''B'', [(''--vscode-c'', ''var(--x)''), (''--vscode-d-e'', ''rgb(1, 2, 3)'')])] =
        Inr (s', items) \<and>
      unionKeys_of items = [''--vscode-a'', ''--vscode-d-e''] \<and>
      list_all (\<lambda>k. startsWith k ''--vscode-'') (unionKeys_of items) \<and>
      items ! 1 \<in> set items \<and>
      lookup_path s' (Ref (it_nested (items ! 1))) [''vscode'', ''d'', ''e''] = Some (Ref 4) \<and>
      \<not> plain_node (objects s' 4) \<and> 4 \<noteq> TT \<and> known_object s' items 4 \<and>
      (\<exists>s rep rows.
         union_loop s' (unionKeys_of items) (take 1 items) [] [] = Inr (s, rep, rows) \<and>
         rows ! 0 \<in> set rows \<and>
         lookup_path s (Ref (unionNested (rows ! 0))) [''vscode'', ''a''] = Some (Ref 1) \<and>
         \<not> plain_node (objects s 1) \<and> 1 \<noteq> TT \<and> known_object s items 1)) \<and>
   (\<exists>items s res r.
      main True
        [(''A'', [(''--vscode-a'', ''#fff''), (''--b'', ''#fff'')]),
         (''B'', [(''--vscode-c'', ''var(--x)''), (''--vscode-d-e'', ''rgb(1, 2, 3)'')])] =
        Inr (items, Some (s, res)) \<and>
      main True
        [(''A'', [(''--vscode-a'', ''#fff'')]),
         (''B'', [(''--vscode-c'', ''var(--x)''), (''--vscode-d-e'', ''rgb(1, 2, 3)'')])] =
        Inr (items, Some (s, res)) \<and>
      r \<in> unionNested ` set (union_rows res) \<and>
      lookup_path s (Ref r) [''vscode'', ''d'', ''e''] = Some (Ref 4) \<and>
      \<not> plain_node (objects s 4) \<and> 4 \<noteq> TT \<and> known_object s items 4)"
proof -
  let ?vars = "[(''--vscode-a'', ''#fff''), (''--b'', ''#fff''), (''--vscode-c'', ''var(--x)'')]"
  let ?inputs = "[(''A'', [(''--vscode-a'', ''#fff''), (''--b'', ''#fff'')]),
         (''B'', [(''--vscode-c'', ''var(--x)''), (''--vscode-d-e'', ''rgb(1, 2, 3)'')])]"
  let ?inputs' = "[(''A'', [(''--vscode-a'', ''#fff'')]),
         (''B'', [(''--vscode-c'', ''var(--x)''), (''--vscode-d-e'', ''rgb(1, 2, 3)'')])]"
  have d: "distinct (map fst ?vars)" by simp
  have e: "filter (\<lambda>k. startsWith k ''--vscode-'' \<and> parseColor (the (map_of ?vars k)) \<noteq> None)
             (map fst ?vars) = [''--vscode-a'']"
    by code_simp
  note fact = flatten_keeps_exactly_vscode_colors [OF d]
  have "map fst (flattenCssVarsToColorTokens ?vars) =
          filter (\<lambda>k. startsWith k ''--vscode-'' \<and> parseColor (the (map_of ?vars k)) \<noteq> None)
            (map fst ?vars)"
    by (rule fact [THEN conjunct2, THEN conjunct1])
  then have 1: "map fst (flattenCssVarsToColorTokens ?vars) = [''--vscode-a'']"
    by (simp only: e)
  \<comment> \<open>step 1 and one row of the union\<close>
  have "case convert_inputs initial_store ?inputs of
          Inl e \<Rightarrow> False
        | Inr (s', items) \<Rightarrow>
            (unionKeys_of items = [''--vscode-a'', ''--vscode-d-e''] \<and>
             length items = 2 \<and>
             lookup_path s' (Ref (it_nested (items ! 1))) [''vscode'', ''d'', ''e''] = Some (Ref 4) \<and>
             \<not> plain_node (objects s' 4) \<and> 4 \<noteq> TT) \<and>
            (case union_loop s' (unionKeys_of items) (take 1 items) [] [] of
               Inl e \<Rightarrow> False
             | Inr (s, rr) \<Rightarrow>
                 (case rr of (rep, rows) \<Rightarrow>
                    length rows = 1 \<and>
                    lookup_path s (Ref (unionNested (rows ! 0))) [''vscode'', ''a''] = Some (Ref 1) \<and>
                    \<not> plain_node (objects s 1) \<and> 1 \<noteq> TT))"
    by code_simp
  then obtain s' items where
    c: "convert_inputs initial_store ?inputs = Inr (s', items)" and
    rest: "(unionKeys_of items = [''--vscode-a'', ''--vscode-d-e''] \<and>
             length items = 2 \<and>
             lookup_path s' (Ref (it_nested (items ! 1))) [''vscode'', ''d'', ''e''] = Some (Ref 4) \<and>
             \<not> plain_node (objects s' 4) \<and> 4 \<noteq> TT) \<and>
            (case union_loop s' (unionKeys_of items) (take 1 items) [] [] of
               Inl e \<Rightarrow> False
             | Inr (s, rr) \<Rightarrow>
                 (case rr of (rep, rows) \<Rightarrow>
                    length rows = 1 \<and>
                    lookup_path s (Ref (unionNested (rows ! 0))) [''vscode'', ''a''] = Some (Ref 1) \<and>
                    \<not> plain_node (objects s 1) \<and> 1 \<noteq> TT))"
    by (elim case_sum_InrE case_prod_pairE) blast
  from rest have u: "unionKeys_of items = [''--vscode-a'', ''--vscode-d-e'']"
    and len: "length items = 2"
    and li: "lookup_path s' (Ref (it_nested (items ! 1))) [''vscode'', ''d'', ''e''] = Some (Ref 4)"
    and ni: "\<not> plain_node (objects s' 4)" "4 \<noteq> TT"
    by simp_all
  from rest have "case union_loop s' (unionKeys_of items) (take 1 items) [] [] of
               Inl e \<Rightarrow> False
             | Inr (s, rr) \<Rightarrow>
                 (case rr of (rep, rows) \<Rightarrow>
                    length rows = 1 \<and>
                    lookup_path s (Ref (unionNested (rows ! 0))) [''vscode'', ''a''] = Some (Ref 1) \<and>
                    \<not> plain_node (objects s 1) \<and> 1 \<noteq> TT)"
    by (rule conjunct2)
  then obtain s rep rows where
    ul: "union_loop s' (unionKeys_of items) (take 1 items) [] [] = Inr (s, rep, rows)" and
    ur: "length rows = 1 \<and>
         lookup_path s (Ref (unionNested (rows ! 0))) [''vscode'', ''a''] = Some (Ref 1) \<and>
         \<not> plain_node (objects s 1) \<and> 1 \<noteq> TT"
    by (elim case_sum_InrE case_prod_pairE) blast
  have in1: "items ! 1 \<in> set items" using len by simp
  have in0: "rows ! 0 \<in> set rows" using ur by simp
  have "\<forall>s inputs s' items.
            convert_inputs s inputs = Inr (s', items) \<longrightarrow>
              list_all (\<lambda>it. list_all (\<lambda>k. startsWith k ''--vscode-'') (map fst (it_flat it))) items \<and>
              list_all (\<lambda>k. startsWith k ''--vscode-'') (unionKeys_of items)"
    by (rule fact [THEN conjunct2, THEN conjunct2, THEN conjunct1])
  with c have 2: "list_all (\<lambda>k. startsWith k ''--vscode-'') (unionKeys_of items)" by blast
  have "\<forall>inputs s items it p a.
            convert_inputs initial_store inputs = Inr (s, items) \<and> it \<in> set items \<and>
            lookup_path s (Ref (it_nested it)) p = Some (Ref a) \<longrightarrow>
              known_object s items a"
    by (rule fact [THEN conjunct2, THEN conjunct2, THEN conjunct2, THEN conjunct2, THEN conjunct1])
  with c in1 li have k1: "known_object s' items 4" by blast
  have "\<forall>inputs s0 items n s rep rows row p a.
            convert_inputs initial_store inputs = Inr (s0, items) \<and>
            union_loop s0 (unionKeys_of items) (take n items) [] [] = Inr (s, rep, rows) \<and>
            row \<in> set rows \<and>
            lookup_path s (Ref (unionNested row)) p = Some (Ref a) \<longrightarrow>
              known_object s items a"
    by (rule fact [THEN conjunct2, THEN conjunct2, THEN conjunct2, THEN conjunct2, THEN conjunct2,
          THEN conjunct1])
  with c ul in0 ur have k2: "known_object s items 1" by blast
  have first: "\<exists>s' items.
      convert_inputs initial_store ?inputs = Inr (s', items) \<and>
      unionKeys_of items = [''--vscode-a'', ''--vscode-d-e''] \<and>
      list_all (\<lambda>k. startsWith k ''--vscode-'') (unionKeys_of items) \<and>
      items ! 1 \<in> set items \<and>
      lookup_path s' (Ref (it_nested (items ! 1))) [''vscode'', ''d'', ''e''] = Some (Ref 4) \<and>
      \<not> plain_node (objects s' 4) \<and> 4 \<noteq> TT \<and> known_object s' items 4 \<and>
      (\<exists>s rep rows.
         union_loop s' (unionKeys_of items) (take 1 items) [] [] = Inr (s, rep, rows) \<and>
         rows ! 0 \<in> set rows \<and>
         lookup_path s (Ref (unionNested (rows ! 0))) [''vscode'', ''a''] = Some (Ref 1) \<and>
         \<not> plain_node (objects s 1) \<and> 1 \<noteq> TT \<and> known_object s items 1)"
    using c u 2 in1 li ni k1 ul in0 ur k2 by blast
  \<comment> \<open>the whole run\<close>
  have f: "map (\<lambda>(n, vars). (n, filter (\<lambda>(k, v). startsWith k ''--vscode-'') vars)) ?inputs = ?inputs'"
    by code_simp
  have "\<forall>u inputs.
            main u (map (\<lambda>(n, vars). (n, filter (\<lambda>(k, v). startsWith k ''--vscode-'') vars)) inputs) =
            main u inputs"
    by (rule fact [THEN conjunct2, THEN conjunct2, THEN conjunct2, THEN conjunct1])
  then have "main True (map (\<lambda>(n, vars). (n, filter (\<lambda>(k, v). startsWith k ''--vscode-'') vars)) ?inputs) =
             main True ?inputs" by blast
  then have same: "main True ?inputs' = main True ?inputs" by (simp only: f)
  have "case main True ?inputs of
          Inl e \<Rightarrow> False
        | Inr (items, r) \<Rightarrow>
            (case r of
               None \<Rightarrow> False
             | Some (s, res) \<Rightarrow>
                 length (union_rows res) = 2 \<and>
                 lookup_path s (Ref (unionNested (union_rows res ! 1))) [''vscode'', ''d'', ''e''] =
                   Some (Ref 4) \<and>
                 \<not> plain_node (objects s 4) \<and> 4 \<noteq> TT)"
    by code_simp
  then obtain items2 s2 res where
    m: "main True ?inputs = Inr (items2, Some (s2, res))" and
    l: "length (union_rows res) = 2 \<and>
        lookup_path s2 (Ref (unionNested (union_rows res ! 1))) [''vscode'', ''d'', ''e''] =
          Some (Ref 4) \<and>
        \<not> plain_node (objects s2 4) \<and> 4 \<noteq> TT"
    by (elim case_sum_InrE case_prod_pairE case_option_SomeE) blast
  have r: "unionNested (union_rows res ! 1) \<in> unionNested ` set (union_rows res)"
    using l by simp
  have "\<forall>u inputs items s res r p a.
            main u inputs = Inr (items, Some (s, res)) \<and>
            (r \<in> it_nested ` set items \<or> r \<in> unionNested ` set (union_rows res)) \<and>
            lookup_path s (Ref r) p = Some (Ref a) \<longrightarrow>
              known_object s items a"
    by (rule fact [THEN conjunct2, THEN conjunct2, THEN conjunct2, THEN conjunct2, THEN conjunct2,
          THEN conjunct2])
  with m r l have k3: "known_object s2 items2 4" by blast
  have second: "\<exists>items s res r.
      main True ?inputs = Inr (items, Some (s, res)) \<and>
      main True ?inputs' = Inr (items, Some (s, res)) \<and>
      r \<in> unionNested ` set (union_rows res) \<and>
      lookup_path s (Ref r) [''vscode'', ''d'', ''e''] = Some (Ref 4) \<and>
      \<not> plain_node (objects s 4) \<and> 4 \<noteq> TT \<and> known_object s items 4"
    using m same r l k3 by metis
  from d 1 first second show ?thesis by (intro conjI)
qed

end
